theory Spec2Isabelle
  imports Main "HOL-Library.Word"
begin

section \<open>JavaScript strings and the string operations the code calls\<close>

text \<open>
  A JavaScript string is a sequence of UTF-16 code units. \<open>split\<close>, \<open>startsWith\<close>,
  \<open>slice\<close> and \<open>trim\<close> all work on code units, so a string is modelled as a list of
  16-bit words. \<open>ascii\<close> writes an ASCII literal of the source as such a list.
\<close>

type_synonym jschar = "16 word"
type_synonym jsstr = "jschar list"

definition ascii :: "string \<Rightarrow> jsstr" where
  "ascii s = map of_char s"

definition LF :: jschar where
  "LF = 0x0A"

text \<open>
  \<open>String.prototype.trim\<close> removes WhiteSpace and LineTerminator code points from both
  ends: TAB, VT, FF, SP, NBSP, ZWNBSP, the other members of Unicode category Zs, and
  LF, CR, LS, PS. All of them lie in the basic plane, so they are single code units.
\<close>

definition is_js_whitespace :: "jschar \<Rightarrow> bool" where
  "is_js_whitespace c =
     (c = 0x09 \<or> c = 0x0A \<or> c = 0x0B \<or> c = 0x0C \<or> c = 0x0D \<or> c = 0x20 \<or>
      c = 0xA0 \<or> c = 0x1680 \<or> (0x2000 \<le> c \<and> c \<le> 0x200A) \<or>
      c = 0x2028 \<or> c = 0x2029 \<or> c = 0x202F \<or> c = 0x205F \<or> c = 0x3000 \<or>
      c = 0xFEFF)"

definition js_trim :: "jsstr \<Rightarrow> jsstr" where
  "js_trim s = rev (dropWhile is_js_whitespace (rev (dropWhile is_js_whitespace s)))"

definition js_startsWith :: "'a list \<Rightarrow> 'a list \<Rightarrow> bool" where
  "js_startsWith s p = (take (length p) s = p)"

text \<open>
  \<open>s.slice(start)\<close> (strings and arrays alike): a negative \<open>start\<close> counts from the
  end, and the index is clamped to the range of the sequence.
\<close>

definition js_slice :: "'a list \<Rightarrow> int \<Rightarrow> 'a list" where
  "js_slice xs start =
     (let len = int (length xs);
          k = (if start < 0 then max (len + start) 0 else min start len)
      in drop (nat k) xs)"

text \<open>
  \<open>s.split(sep)\<close> with a string separator and no limit: the string is scanned from the
  left; at each position where the separator matches, a piece is closed and the scan
  resumes behind the match. The result is never empty for a non-empty separator. With
  the empty separator the pieces are the single code units.
\<close>

function js_split :: "'a list \<Rightarrow> 'a list \<Rightarrow> 'a list list" where
  "js_split [] sep = (if sep = [] then [] else [[]])"
| "js_split (c # cs) sep =
     (if sep = [] then [c] # js_split cs sep
      else if js_startsWith (c # cs) sep then [] # js_split (drop (length sep) (c # cs)) sep
      else (case js_split cs sep of [] \<Rightarrow> [[c]] | p # ps \<Rightarrow> (c # p) # ps))"
  by pat_completeness auto
termination
  by (relation "measure (\<lambda>(s, sep). length s)") auto

text \<open>\<open>`${n}`\<close> for a non-negative integer: its decimal digits.\<close>

fun js_decimal :: "nat \<Rightarrow> jsstr" where
  "js_decimal n =
     (if n < 10 then [0x30 + of_nat n]
      else js_decimal (n div 10) @ [0x30 + of_nat (n mod 10)])"

declare js_decimal.simps [simp del]

section \<open>The SSE client: \<open>streamQuery\<close> (features/inspector/InspectorView.tsx)\<close>

text \<open>
  \<open>interface SSEEvent { event: string; data: unknown }\<close>. The payload handed to the
  callback is either what \<open>JSON.parse\<close> returned (\<open>Decoded\<close>) or the object literal
  \<open>{ error: msg }\<close> that \<open>streamQuery\<close> builds itself (\<open>ErrorInfo msg\<close>).
\<close>

datatype 'j payload = Decoded 'j | ErrorInfo jsstr

record 'j sse_event =
  event :: jsstr
  data :: "'j payload"

text \<open>
  A thrown object, as far as the two \<open>catch\<close> handlers look at it: whether it is an
  \<open>instanceof Error\<close>, its \<open>name\<close> and its \<open>message\<close>. A thrown value is such an
  object, or \<open>null\<close> or \<open>undefined\<close>, on which reading \<open>.name\<close> throws a TypeError
  (\<open>instanceof\<close> does not). Every Error and DOMException has a name and a message
  that are strings; other thrown objects are taken to have them too.
\<close>

record js_error =
  instanceof_Error :: bool
  err_name :: jsstr
  err_message :: jsstr

datatype js_thrown = Thrown_nullish | Thrown_object js_error

definition new_Error :: "jsstr \<Rightarrow> js_error" where
  "new_Error msg = \<lparr>instanceof_Error = True, err_name = ascii ''Error'', err_message = msg\<rparr>"

text \<open>
  \<open>JSON.parse\<close> is a parameter of the model: \<open>None\<close> stands for the SyntaxError it
  throws. The callback \<open>onEvent\<close> is a parameter too. It is arbitrary code of the
  caller, so it may throw: \<open>onEvent h e\<close> tells, from the events \<open>h\<close> it was called with
  before and the event \<open>e\<close> it is called with now, whether the call returns (\<open>None\<close>) or
  throws (\<open>Some x\<close>).
\<close>

type_synonym 'j json_parse = "jsstr \<Rightarrow> 'j option"
type_synonym 'j handler = "'j sse_event list \<Rightarrow> 'j sse_event \<Rightarrow> js_thrown option"

text \<open>
  The variables of the read loop, and the record of every callback invocation made so
  far (\<open>calls\<close>, oldest first), which is what the claims speak about.
\<close>

record 'j stream_state =
  buffer :: jsstr
  eventCount :: nat
  calls :: "'j sse_event list"

definition call :: "'j handler \<Rightarrow> 'j sse_event \<Rightarrow> 'j stream_state \<Rightarrow> js_thrown option \<times> 'j stream_state" where
  "call onEvent e st = (onEvent (calls st) e, st\<lparr>calls := calls st @ [e]\<rparr>)"

definition error_event :: "jsstr \<Rightarrow> 'j sse_event" where
  "error_event msg = \<lparr>event = ascii ''error'', data = ErrorInfo msg\<rparr>"

text \<open>
  The inner \<open>for (const line of lines)\<close>: the pair is the current value of the variables
  \<open>event\<close> and \<open>data\<close>.
\<close>

fun scan_lines :: "jsstr list \<Rightarrow> jsstr \<times> jsstr \<Rightarrow> jsstr \<times> jsstr" where
  "scan_lines [] (ev, dat) = (ev, dat)"
| "scan_lines (line # lines) (ev, dat) =
     (if js_startsWith line (ascii ''event: '') then
        scan_lines lines (js_trim (js_slice line 7), dat)
      else if js_startsWith line (ascii ''data: '') then
        scan_lines lines (ev, js_trim (js_slice line 6))
      else scan_lines lines (ev, dat))"

text \<open>
  The body of \<open>for (const message of messages)\<close>. The first component of the result is
  the exception that leaves the body, if any. The \<open>try\<close> block holds both
  \<open>JSON.parse\<close> and the call of \<open>onEvent\<close>, so its \<open>catch\<close> also runs when the callback
  throws; what the \<open>catch\<close> block throws leaves the body.
\<close>

definition handle_message ::
  "'j json_parse \<Rightarrow> 'j handler \<Rightarrow> jsstr \<Rightarrow> 'j stream_state \<Rightarrow> js_thrown option \<times> 'j stream_state" where
  "handle_message parse onEvent message st =
     (if js_trim message = [] then (None, st)
      else
        let (ev, dat) = scan_lines (js_split message [LF]) (ascii ''message'', [])
        in if dat = [] then (None, st)
           else
             (case parse dat of
                None \<Rightarrow> call onEvent (error_event (ascii ''Failed to parse SSE data'')) st
              | Some parsed \<Rightarrow>
                  (case call onEvent \<lparr>event = ev, data = Decoded parsed\<rparr>
                          (st\<lparr>eventCount := eventCount st + 1\<rparr>) of
                     (None, st') \<Rightarrow> (None, st')
                   | (Some x, st') \<Rightarrow>
                       call onEvent (error_event (ascii ''Failed to parse SSE data'')) st')))"

fun for_messages ::
  "'j json_parse \<Rightarrow> 'j handler \<Rightarrow> jsstr list \<Rightarrow> 'j stream_state \<Rightarrow> js_thrown option \<times> 'j stream_state" where
  "for_messages parse onEvent [] st = (None, st)"
| "for_messages parse onEvent (message # messages) st =
     (case handle_message parse onEvent message st of
        (None, st') \<Rightarrow> for_messages parse onEvent messages st'
      | (Some x, st') \<Rightarrow> (Some x, st'))"

text \<open>
  \<open>messages.pop() || ''\<close>: the last piece, or the empty string when there is none or
  it is empty. The array keeps the other pieces.
\<close>

definition pop_or_empty :: "jsstr list \<Rightarrow> jsstr \<times> jsstr list" where
  "pop_or_empty messages =
     (if messages = [] then ([], [])
      else (if last messages = [] then [] else last messages, butlast messages))"

text \<open>
  One turn of \<open>while (true)\<close> after a read that was not \<open>done\<close>. \<open>chunk\<close> is the text
  \<open>decoder.decode(value, { stream: true })\<close> returned for the bytes read: the streaming
  decoder keeps the bytes of a character cut by the read until the rest arrives, so the
  chunks of text concatenate to the decoded stream.
\<close>

definition on_chunk ::
  "'j json_parse \<Rightarrow> 'j handler \<Rightarrow> jsstr \<Rightarrow> 'j stream_state \<Rightarrow> js_thrown option \<times> 'j stream_state" where
  "on_chunk parse onEvent chunk st =
     (let (rest, messages) = pop_or_empty (js_split (buffer st @ chunk) [LF, LF])
      in for_messages parse onEvent messages (st\<lparr>buffer := rest\<rparr>))"

text \<open>
  What successive \<open>await reader.read()\<close> give: a chunk, \<open>done\<close>, or a rejection (a
  network error, or the AbortError after \<open>controller.abort()\<close>). The list is what the
  reader delivers, in order; when the list is used up the next read never settles and
  the loop stays suspended.
\<close>

datatype read_result = Chunk jsstr | Done | ReadRejected js_thrown

datatype loop_exit = Break | Suspended | Thrown js_thrown

fun read_loop ::
  "'j json_parse \<Rightarrow> 'j handler \<Rightarrow> read_result list \<Rightarrow> 'j stream_state \<Rightarrow> loop_exit \<times> 'j stream_state" where
  "read_loop parse onEvent [] st = (Suspended, st)"
| "read_loop parse onEvent (Done # reads) st = (Break, st)"
| "read_loop parse onEvent (ReadRejected x # reads) st = (Thrown x, st)"
| "read_loop parse onEvent (Chunk chunk # reads) st =
     (case on_chunk parse onEvent chunk st of
        (None, st') \<Rightarrow> read_loop parse onEvent reads st'
      | (Some x, st') \<Rightarrow> (Thrown x, st'))"

text \<open>
  The state of a promise when nothing more can happen: fulfilled, rejected with a
  value, or never settled.
\<close>

datatype promise = Fulfilled | Rejected js_thrown | Forever_pending

text \<open>
  \<open>let buffer = ''\<close>, \<open>let eventCount = 0\<close>, and no callback invocation yet.
\<close>

definition initial_state :: "'j stream_state" where
  "initial_state = \<lparr>buffer = [], eventCount = 0, calls = []\<rparr>"

text \<open>
  The \<open>try { while ... } catch (error) { ... }\<close> of the \<open>then\<close> handler. For \<open>null\<close>
  and \<open>undefined\<close> the test \<open>error instanceof Error\<close> is false.
\<close>

definition read_stream ::
  "'j json_parse \<Rightarrow> 'j handler \<Rightarrow> read_result list \<Rightarrow> promise \<times> 'j sse_event list" where
  "read_stream parse onEvent reads =
     (case read_loop parse onEvent reads initial_state of
        (Break, st) \<Rightarrow> (Fulfilled, calls st)
      | (Suspended, st) \<Rightarrow> (Forever_pending, calls st)
      | (Thrown Thrown_nullish, st) \<Rightarrow> (Fulfilled, calls st)
      | (Thrown (Thrown_object error), st) \<Rightarrow>
          (if instanceof_Error error \<and> err_name error \<noteq> ascii ''AbortError'' then
             (case call onEvent (error_event (err_message error)) st of
                (None, st') \<Rightarrow> (Fulfilled, calls st')
              | (Some x, st') \<Rightarrow> (Rejected x, calls st'))
           else (Fulfilled, calls st)))"

text \<open>The response of \<open>fetch\<close>, as far as the handler reads it.\<close>

record response =
  ok :: bool
  status :: nat
  body :: "read_result list option"

definition then_handler ::
  "'j json_parse \<Rightarrow> 'j handler \<Rightarrow> response \<Rightarrow> promise \<times> 'j sse_event list" where
  "then_handler parse onEvent resp =
     (if \<not> ok resp then
        (Rejected (Thrown_object (new_Error (ascii ''HTTP '' @ js_decimal (status resp)))), [])
      else
        (case body resp of
           None \<Rightarrow> (Rejected (Thrown_object (new_Error (ascii ''No response body''))), [])
         | Some reads \<Rightarrow> read_stream parse onEvent reads))"

text \<open>
  The final \<open>.catch((error) => ...)\<close>, given the callback invocations made before. An
  exception of the callback here is handled by nobody. When the value caught is \<open>null\<close>
  or \<open>undefined\<close>, reading \<open>error.name\<close> throws a TypeError (its message is the
  engine's), which nobody handles either, and the callback is not invoked.
\<close>

datatype outcome = Settled | Pending | Unhandled js_thrown

definition TypeError_reading_name :: js_error where
  "TypeError_reading_name =
     \<lparr>instanceof_Error = True, err_name = ascii ''TypeError'',
      err_message = ascii ''Cannot read properties of null''\<rparr>"

record 'j run =
  invocations :: "'j sse_event list"
  outcome :: outcome

fun catch_handler :: "'j handler \<Rightarrow> js_thrown \<Rightarrow> 'j sse_event list \<Rightarrow> 'j run" where
  "catch_handler onEvent Thrown_nullish made =
     \<lparr>invocations = made, outcome = Unhandled (Thrown_object TypeError_reading_name)\<rparr>"
| "catch_handler onEvent (Thrown_object error) made =
     (if err_name error \<noteq> ascii ''AbortError'' then
        \<lparr>invocations = made @ [error_event (err_message error)],
         outcome = (case onEvent made (error_event (err_message error)) of
                      None \<Rightarrow> Settled | Some x \<Rightarrow> Unhandled x)\<rparr>
      else \<lparr>invocations = made, outcome = Settled\<rparr>)"

datatype fetch_result = Fetch_pending | Fetch_rejected js_thrown | Fetch_response response

text \<open>
  \<open>streamQuery\<close>: the promise chain \<open>fetch(...).then(...).catch(...)\<close>, run against what
  \<open>fetch\<close> and the reader of the body deliver. The controller, the signal passed to
  \<open>fetch\<close> and the function returned to the caller follow in the next section, with
  what they make \<open>fetch\<close> and the reader deliver.
\<close>

definition streamQuery :: "'j json_parse \<Rightarrow> 'j handler \<Rightarrow> fetch_result \<Rightarrow> 'j run" where
  "streamQuery parse onEvent fetched =
     (case fetched of
        Fetch_pending \<Rightarrow> \<lparr>invocations = [], outcome = Pending\<rparr>
      | Fetch_rejected error \<Rightarrow> catch_handler onEvent error []
      | Fetch_response resp \<Rightarrow>
          (case then_handler parse onEvent resp of
             (Fulfilled, cs) \<Rightarrow> \<lparr>invocations = cs, outcome = Settled\<rparr>
           | (Forever_pending, cs) \<Rightarrow> \<lparr>invocations = cs, outcome = Pending\<rparr>
           | (Rejected error, cs) \<Rightarrow> catch_handler onEvent error cs))"

section \<open>Cancellation: the controller, its signal and the function \<open>streamQuery\<close> returns\<close>

text \<open>
  \<open>const controller = new AbortController()\<close>. Of the controller the code uses
  \<open>controller.abort()\<close> and \<open>controller.signal\<close>; the signal tells whether its controller
  has been aborted.
\<close>

record abort_controller =
  aborted :: bool

definition new_AbortController :: abort_controller where
  "new_AbortController = \<lparr>aborted = False\<rparr>"

definition controller_abort :: "abort_controller \<Rightarrow> abort_controller" where
  "controller_abort controller = controller\<lparr>aborted := True\<rparr>"

type_synonym abort_signal = "abort_controller \<Rightarrow> bool"

definition controller_signal :: abort_signal where
  "controller_signal controller = aborted controller"

text \<open>
  The options \<open>streamQuery\<close> passes to \<open>fetch\<close>, as far as they matter here:
  \<open>{ method: 'POST', ..., signal: controller.signal }\<close>.
\<close>

record request_init =
  http_method :: jsstr
  signal :: "abort_signal option"

definition streamQuery_init :: request_init where
  "streamQuery_init = \<lparr>http_method = ascii ''POST'', signal = Some controller_signal\<rparr>"

text \<open>
  The function \<open>streamQuery\<close> returns, \<open>() => { controller.abort() }\<close>, as what a call
  of it does to the controller.
\<close>

definition returned_function :: "abort_controller \<Rightarrow> abort_controller" where
  "returned_function controller = controller_abort controller"

text \<open>
  The platform's part, after the Fetch and Streams standards. When the signal given to
  \<open>fetch\<close> is aborted while \<open>fetch\<close> is pending, its promise rejects with a
  DOMException named \<open>AbortError\<close>. When it is aborted while the body is being read,
  the body stream is errored with the same exception: the reads answered so far stand,
  the next read rejects, and nothing the network sends later is delivered. A request
  without a signal, or whose signal is not aborted, gets what the network does.

  The moment of the abort is either before the response has arrived, or after a given
  number of reads of the body have been answered. A moment that the run does not reach
  (the body ended or failed earlier, or there is no body to read) changes nothing.
\<close>

definition abort_error :: js_error where
  "abort_error =
     \<lparr>instanceof_Error = True, err_name = ascii ''AbortError'',
      err_message = ascii ''The operation was aborted.''\<rparr>"

datatype moment = Before_response | After_reads nat

fun aborted_at :: "moment \<Rightarrow> fetch_result \<Rightarrow> fetch_result" where
  "aborted_at Before_response script = Fetch_rejected (Thrown_object abort_error)"
| "aborted_at (After_reads k) (Fetch_response resp) =
     (case body resp of
        None \<Rightarrow> Fetch_response resp
      | Some reads \<Rightarrow>
          Fetch_response (resp\<lparr>body := Some (take k reads @ [ReadRejected (Thrown_object abort_error)])\<rparr>))"
| "aborted_at (After_reads k) script = script"

definition platform_fetch ::
  "request_init \<Rightarrow> abort_controller \<Rightarrow> moment \<Rightarrow> fetch_result \<Rightarrow> fetch_result" where
  "platform_fetch init controller at script =
     (case signal init of
        None \<Rightarrow> script
      | Some sig \<Rightarrow> if sig controller then aborted_at at script else script)"

text \<open>
  A call of \<open>streamQuery\<close> whose caller calls the returned function at the given
  moment: the controller is created, its signal goes to \<open>fetch\<close>, the call of the
  returned function changes the controller, and the promise chain runs on what the
  platform then delivers of the network's script.
\<close>

definition streamQuery_cancelled ::
  "'j json_parse \<Rightarrow> 'j handler \<Rightarrow> fetch_result \<Rightarrow> moment \<Rightarrow> 'j run" where
  "streamQuery_cancelled parse onEvent script at =
     (let controller = new_AbortController;
          cancel = returned_function
      in streamQuery parse onEvent
           (platform_fetch streamQuery_init (cancel controller) at script))"

section \<open>The log list: \<open>appendLog\<close> (App.tsx)\<close>

datatype log_source = Frontend | Backend

record log_entry =
  entry_id :: jsstr
  source :: log_source
  message :: jsstr
  timestamp :: int

text \<open>
  The updater that \<open>appendLog\<close> passes to \<open>setLogs\<close>. The id (made from the clock and
  \<open>Math.random\<close>) and the timestamp come from the environment.
\<close>

definition appendLog :: "log_source \<Rightarrow> jsstr \<Rightarrow> jsstr \<Rightarrow> int \<Rightarrow> log_entry list \<Rightarrow> log_entry list" where
  "appendLog src msg fresh_id now prev =
     (let entry = \<lparr>entry_id = fresh_id, source = src, message = msg, timestamp = now\<rparr>;
          next = prev @ [entry]
      in if length next > 300 then js_slice next (- 300) else next)"

section \<open>Notions used in the statements\<close>

text \<open>A callback that returns from every call.\<close>

definition never_throws :: "'j handler \<Rightarrow> bool" where
  "never_throws onEvent = (\<forall>h e. onEvent h e = None)"

text \<open>
  The values of the variables \<open>event\<close> and \<open>data\<close> behind the loop over the lines of
  a message.
\<close>

definition event_name_of :: "jsstr \<Rightarrow> jsstr" where
  "event_name_of m = fst (scan_lines (js_split m [LF]) (ascii ''message'', []))"

definition payload_of :: "jsstr \<Rightarrow> jsstr" where
  "payload_of m = snd (scan_lines (js_split m [LF]) (ascii ''message'', []))"

text \<open>
  The callback invocations one message gives rise to when the callback returns: none
  for a message that is blank or has no payload, the decoded event when the payload
  parses, the parse error event when it does not.
\<close>

definition message_events :: "'j json_parse \<Rightarrow> jsstr \<Rightarrow> 'j sse_event list" where
  "message_events parse m =
     (if js_trim m = [] \<or> payload_of m = [] then []
      else (case parse (payload_of m) of
              None \<Rightarrow> [\<lparr>event = ascii ''error'',
                        data = ErrorInfo (ascii ''Failed to parse SSE data'')\<rparr>]
            | Some v \<Rightarrow> [\<lparr>event = event_name_of m, data = Decoded v\<rparr>]))"

text \<open>
  The messages of a stream that are terminated by a blank line, in the order of the
  stream, and the text behind the last terminator.
\<close>

definition terminated_messages :: "jsstr \<Rightarrow> jsstr list" where
  "terminated_messages s = butlast (js_split s [LF, LF])"

definition trailing_text :: "jsstr \<Rightarrow> jsstr" where
  "trailing_text s = last (js_split s [LF, LF])"

text \<open>The last of the lines that start with a given prefix, if there is one.\<close>

definition last_line_with :: "jsstr \<Rightarrow> jsstr list \<Rightarrow> jsstr option" where
  "last_line_with p lines =
     (let found = filter (\<lambda>l. js_startsWith l p) lines
      in if found = [] then None else Some (last found))"

text \<open>A successful response whose body delivers the given reads.\<close>

definition ok_response :: "read_result list \<Rightarrow> fetch_result" where
  "ok_response reads = Fetch_response \<lparr>ok = True, status = 200, body = Some reads\<rparr>"

text \<open>
  Concrete parameters for running the model: a callback that always returns, and the
  restriction of \<open>JSON.parse\<close> to the three literal names of JSON (any other text is
  rejected here).
\<close>

definition returning :: "'j handler" where
  "returning h e = None"

datatype json_literal = JTrue | JFalse | JNull

definition parse_literal :: "json_literal json_parse" where
  "parse_literal s =
     (if s = ascii ''true'' then Some JTrue
      else if s = ascii ''false'' then Some JFalse
      else if s = ascii ''null'' then Some JNull
      else None)"

text \<open>
  A callback that throws \<open>new Error('boom')\<close> from its first call and returns from
  every later one, and a log entry to fill a log list with.
\<close>

definition throws_first :: "'j handler" where
  "throws_first h e =
     (case h of [] \<Rightarrow> Some (Thrown_object (new_Error (ascii ''boom''))) | _ \<Rightarrow> None)"

definition sample_entry :: log_entry where
  "sample_entry =
     \<lparr>entry_id = ascii ''0-a'', source = Frontend, message = ascii ''old'', timestamp = 0\<rparr>"

section \<open>Splitting a text at a separator\<close>

lemma js_split_nonempty: "sep \<noteq> [] \<Longrightarrow> js_split s sep \<noteq> []"
  by (cases s) (auto split: list.splits)

lemma js_split_short: "length s < length sep \<Longrightarrow> js_split s sep = [s]"
  by (induction s) (auto simp: js_startsWith_def)

lemma js_split_single: "sep \<noteq> [] \<Longrightarrow> js_split s sep = [p] \<Longrightarrow> p = s"
  by (induction s sep arbitrary: p rule: js_split.induct)
     (auto simp: js_split_nonempty split: if_splits list.splits)

lemma js_startsWith_length: "js_startsWith s sep \<Longrightarrow> length sep \<le> length s"
  by (metis js_startsWith_def length_take min.cobounded1)

lemma js_startsWith_append:
  assumes "js_startsWith s sep"
  shows "js_startsWith (s @ t) sep"
proof -
  have "length sep \<le> length s" using assms by (rule js_startsWith_length)
  then have "take (length sep) (s @ t) = take (length sep) s" by simp
  then show ?thesis using assms by (simp add: js_startsWith_def)
qed

lemma js_startsWith_straddle:
  "js_startsWith (s @ t) sep \<Longrightarrow> \<not> js_startsWith s sep \<Longrightarrow> length s < length sep"
proof (rule ccontr)
  assume a: "js_startsWith (s @ t) sep" "\<not> js_startsWith s sep" and "\<not> length s < length sep"
  then have "take (length sep) (s @ t) = take (length sep) s" by simp
  with a show False by (simp add: js_startsWith_def)
qed

lemma js_split_append:
  "sep \<noteq> [] \<Longrightarrow>
   js_split (s @ t) sep = butlast (js_split s sep) @ js_split (last (js_split s sep) @ t) sep"
proof (induction s sep rule: js_split.induct)
  case (1 sep)
  then show ?case by simp
next
  case (2 c cs sep)
  note IH = "2.IH" and ne = "2.prems"
  show ?case
  proof (cases "js_startsWith (c # cs) sep")
    case True
    then have st: "js_startsWith ((c # cs) @ t) sep" by (rule js_startsWith_append)
    have len: "length sep \<le> length (c # cs)" using True by (rule js_startsWith_length)
    have dr: "drop (length sep) ((c # cs) @ t) = drop (length sep) (c # cs) @ t"
      using len by (simp only: drop_append) simp
    have "js_split ((c # cs) @ t) sep = [] # js_split (drop (length sep) (c # cs) @ t) sep"
      using st dr ne by (metis append_Cons js_split.simps(2))
    also have "\<dots> = [] # (butlast (js_split (drop (length sep) (c # cs)) sep)
                 @ js_split (last (js_split (drop (length sep) (c # cs)) sep) @ t) sep)"
      using IH(2)[OF ne True ne] by simp
    finally show ?thesis using True ne by (simp add: js_split_nonempty)
  next
    case False
    show ?thesis
    proof (cases "js_startsWith ((c # cs) @ t) sep")
      case True
      then have "length (c # cs) < length sep" using False by (rule js_startsWith_straddle)
      then have "js_split (c # cs) sep = [c # cs]" by (rule js_split_short)
      then show ?thesis by simp
    next
      case nst: False
      have ih: "js_split (cs @ t) sep =
         butlast (js_split cs sep) @ js_split (last (js_split cs sep) @ t) sep"
        using IH(3)[OF ne False ne] .
      obtain p ps where sp: "js_split cs sep = p # ps"
        using js_split_nonempty[OF ne, of cs] by (cases "js_split cs sep") auto
      show ?thesis
      proof (cases ps)
        case Nil
        then have "p = cs" using sp js_split_single[OF ne] by blast
        then show ?thesis using sp Nil False ne by simp
      next
        case (Cons q qs)
        have "js_split ((c # cs) @ t) sep =
            (case js_split (cs @ t) sep of [] \<Rightarrow> [[c]] | r # rs \<Rightarrow> (c # r) # rs)"
          using nst ne by simp
        then show ?thesis using ih sp Cons False ne by simp
      qed
    qed
  qed
qed

lemma js_split_last_whole:
  "sep \<noteq> [] \<Longrightarrow> js_split (last (js_split s sep)) sep = [last (js_split s sep)]"
proof (induction s sep rule: js_split.induct)
  case (1 sep)
  then show ?case by simp
next
  case (2 c cs sep)
  note IH = "2.IH" and ne = "2.prems"
  show ?case
  proof (cases "js_startsWith (c # cs) sep")
    case True
    then show ?thesis using IH(2)[OF ne True ne] ne by (simp add: js_split_nonempty)
  next
    case False
    obtain p ps where sp: "js_split cs sep = p # ps"
      using js_split_nonempty[OF ne, of cs] by (cases "js_split cs sep") auto
    show ?thesis
    proof (cases ps)
      case Nil
      then have "p = cs" using sp js_split_single[OF ne] by blast
      then show ?thesis using sp Nil False ne by simp
    next
      case (Cons q qs)
      then show ?thesis using IH(3)[OF ne False ne] sp False ne by simp
    qed
  qed
qed

section \<open>The read loop under a callback that returns\<close>

lemma handle_message_returning:
  assumes "never_throws onEvent"
  shows "fst (handle_message parse onEvent m st) = None"
    and "calls (snd (handle_message parse onEvent m st)) = calls st @ message_events parse m"
    and "buffer (snd (handle_message parse onEvent m st)) = buffer st"
  using assms
  by (auto simp: handle_message_def message_events_def never_throws_def call_def
      error_event_def payload_of_def event_name_of_def split: prod.splits option.splits)

lemma for_messages_returning:
  assumes "never_throws onEvent"
  shows "fst (for_messages parse onEvent ms st) = None \<and>
     calls (snd (for_messages parse onEvent ms st)) = calls st @ concat (map (message_events parse) ms) \<and>
     buffer (snd (for_messages parse onEvent ms st)) = buffer st"
proof (induction ms arbitrary: st)
  case Nil
  show ?case by simp
next
  case (Cons m ms)
  obtain r st' where hm: "handle_message parse onEvent m st = (r, st')" by force
  have r: "r = None" using handle_message_returning(1)[OF assms, of parse m st] hm by simp
  have c: "calls st' = calls st @ message_events parse m"
    using handle_message_returning(2)[OF assms, of parse m st] hm by simp
  have b: "buffer st' = buffer st"
    using handle_message_returning(3)[OF assms, of parse m st] hm by simp
  show ?case using Cons.IH[of st'] hm r c b by simp
qed

lemma on_chunk_returning:
  assumes "never_throws onEvent"
  shows "fst (on_chunk parse onEvent chunk st) = None \<and>
     calls (snd (on_chunk parse onEvent chunk st)) =
       calls st @ concat (map (message_events parse) (terminated_messages (buffer st @ chunk))) \<and>
     buffer (snd (on_chunk parse onEvent chunk st)) = trailing_text (buffer st @ chunk)"
  using for_messages_returning[OF assms, of parse "butlast (js_split (buffer st @ chunk) [LF, LF])"
      "st\<lparr>buffer := last (js_split (buffer st @ chunk) [LF, LF])\<rparr>"]
  by (simp add: on_chunk_def pop_or_empty_def js_split_nonempty terminated_messages_def trailing_text_def)

lemma terminated_messages_append:
  "terminated_messages (s @ t) = terminated_messages s @ terminated_messages (trailing_text s @ t)"
  unfolding terminated_messages_def trailing_text_def
  by (subst js_split_append) (simp_all add: butlast_append js_split_nonempty)

lemma trailing_text_append:
  "trailing_text (s @ t) = trailing_text (trailing_text s @ t)"
  unfolding trailing_text_def
  by (subst js_split_append) (simp_all add: js_split_nonempty)

lemma terminated_messages_trailing [simp]: "terminated_messages (trailing_text s) = []"
  by (simp add: terminated_messages_def trailing_text_def js_split_last_whole)

lemma trailing_text_idem [simp]: "trailing_text (trailing_text s) = trailing_text s"
  by (simp add: trailing_text_def js_split_last_whole)

lemma read_loop_state:
  assumes "never_throws onEvent"
  shows "trailing_text (buffer st) = buffer st \<Longrightarrow>
     fst (read_loop parse onEvent (map Chunk chunks) st) = Suspended \<and>
     calls (snd (read_loop parse onEvent (map Chunk chunks) st)) =
       calls st @ concat (map (message_events parse) (terminated_messages (buffer st @ concat chunks))) \<and>
     buffer (snd (read_loop parse onEvent (map Chunk chunks) st)) =
       trailing_text (buffer st @ concat chunks)"
proof (induction chunks arbitrary: st)
  case Nil
  have "terminated_messages (buffer st) = []"
    using terminated_messages_trailing[of "buffer st"] Nil by simp
  then show ?case using Nil by simp
next
  case (Cons c cs)
  obtain r st' where oc: "on_chunk parse onEvent c st = (r, st')" by force
  have r: "r = None"
    and c': "calls st' = calls st @ concat (map (message_events parse) (terminated_messages (buffer st @ c)))"
    and b': "buffer st' = trailing_text (buffer st @ c)"
    using on_chunk_returning[OF assms, of parse c st] oc by simp_all
  have inv: "trailing_text (buffer st') = buffer st'" using b' by simp
  have tm: "terminated_messages (buffer st @ c @ concat cs) =
      terminated_messages (buffer st @ c) @ terminated_messages (buffer st' @ concat cs)"
    using terminated_messages_append[of "buffer st @ c" "concat cs"] b' by simp
  have tt: "trailing_text (buffer st @ c @ concat cs) = trailing_text (buffer st' @ concat cs)"
    using trailing_text_append[of "buffer st @ c" "concat cs"] b' by simp
  show ?case using Cons.IH[OF inv] oc r c' tm tt by simp
qed

lemma trailing_text_Nil [simp]: "trailing_text [] = []"
  by (simp add: trailing_text_def)

lemma read_loop_initial:
  assumes "never_throws onEvent"
  shows "fst (read_loop parse onEvent (map Chunk chunks) initial_state) = Suspended"
    and "calls (snd (read_loop parse onEvent (map Chunk chunks) initial_state)) =
       concat (map (message_events parse) (terminated_messages (concat chunks)))"
    and "buffer (snd (read_loop parse onEvent (map Chunk chunks) initial_state)) =
       trailing_text (concat chunks)"
  using read_loop_state[OF assms, of initial_state parse chunks]
  by (simp_all add: initial_state_def)

lemma read_loop_Done:
  "read_loop parse onEvent (map Chunk chunks @ Done # rest) st =
     (case read_loop parse onEvent (map Chunk chunks) st of
        (Suspended, st') \<Rightarrow> (Break, st')
      | other \<Rightarrow> other)"
  by (induction chunks arbitrary: st) (auto split: prod.splits option.splits)

lemma read_loop_Rejected:
  "read_loop parse onEvent (map Chunk chunks @ ReadRejected x # rest) st =
     (case read_loop parse onEvent (map Chunk chunks) st of
        (Suspended, st') \<Rightarrow> (Thrown x, st')
      | other \<Rightarrow> other)"
  by (induction chunks arbitrary: st) (auto split: prod.splits option.splits)

lemma read_loop_chunks_not_Break:
  "fst (read_loop parse onEvent (map Chunk chunks) st) \<noteq> Break"
  by (induction chunks arbitrary: st) (auto split: prod.splits option.splits)

lemma streamQuery_returning:
  assumes "never_throws onEvent"
  shows "streamQuery parse onEvent (ok_response (map Chunk chunks @ Done # rest)) =
     \<lparr>invocations = concat (map (message_events parse) (terminated_messages (concat chunks))),
      outcome = Settled\<rparr>"
proof -
  obtain e st' where rl: "read_loop parse onEvent (map Chunk chunks) initial_state = (e, st')"
    by force
  have "e = Suspended" 
    and "calls st' = concat (map (message_events parse) (terminated_messages (concat chunks)))"
    using read_loop_initial[OF assms, of parse chunks] rl by simp_all
  then show ?thesis
    using rl by (simp add: streamQuery_def ok_response_def then_handler_def read_stream_def
        read_loop_Done)
qed

lemma streamQuery_pending:
  assumes "never_throws onEvent"
  shows "streamQuery parse onEvent (ok_response (map Chunk chunks)) =
     \<lparr>invocations = concat (map (message_events parse) (terminated_messages (concat chunks))),
      outcome = Pending\<rparr>"
proof -
  obtain e st' where rl: "read_loop parse onEvent (map Chunk chunks) initial_state = (e, st')"
    by force
  have "e = Suspended" 
    and "calls st' = concat (map (message_events parse) (terminated_messages (concat chunks)))"
    using read_loop_initial[OF assms, of parse chunks] rl by simp_all
  then show ?thesis
    using rl by (simp add: streamQuery_def ok_response_def then_handler_def read_stream_def)
qed

section \<open>The fields of a message\<close>

lemma js_slice_nonneg: "0 \<le> k \<Longrightarrow> js_slice xs k = drop (nat k) xs"
  by (auto simp: js_slice_def Let_def min_def)

lemma js_slice_7 [simp]: "js_slice xs 7 = drop 7 xs"
  using js_slice_nonneg[of 7 xs] by simp

lemma js_slice_6 [simp]: "js_slice xs 6 = drop 6 xs"
  using js_slice_nonneg[of 6 xs] by simp

lemma event_not_data:
  "js_startsWith l (ascii ''event: '') \<Longrightarrow> \<not> js_startsWith l (ascii ''data: '')"
  by (cases l) (auto simp: js_startsWith_def ascii_def)

lemma last_line_with_Cons:
  "last_line_with p (l # ls) =
     (case last_line_with p ls of
        None \<Rightarrow> (if js_startsWith l p then Some l else None)
      | Some k \<Rightarrow> Some k)"
  by (simp add: last_line_with_def)

lemma scan_lines_last:
  "scan_lines lines (ev0, dat0) =
     (case last_line_with (ascii ''event: '') lines of None \<Rightarrow> ev0 | Some l \<Rightarrow> js_trim (js_slice l 7),
      case last_line_with (ascii ''data: '') lines of None \<Rightarrow> dat0 | Some l \<Rightarrow> js_trim (js_slice l 6))"
proof (induction lines arbitrary: ev0 dat0)
  case Nil
  show ?case by (simp add: last_line_with_def)
next
  case (Cons l ls)
  show ?case
    using event_not_data[of l]
    by (auto simp: Cons.IH last_line_with_Cons split: option.splits)
qed

lemma last_line_with_append:
  assumes "js_startsWith l p" and "\<forall>k \<in> set post. \<not> js_startsWith k p"
  shows "last_line_with p (pre @ l # post) = Some l"
proof -
  have "filter (\<lambda>l. js_startsWith l p) post = []" using assms(2) by (induction post) auto
  then show ?thesis using assms(1) by (simp add: last_line_with_def)
qed

lemma last_line_with_None:
  "(last_line_with p lines = None) = (\<forall>l \<in> set lines. \<not> js_startsWith l p)"
  by (simp add: last_line_with_def filter_empty_conv)

lemma last_line_with_Some:
  assumes "last_line_with p lines = Some l"
  shows "l \<in> set lines \<and> js_startsWith l p"
proof -
  have ne: "filter (\<lambda>l. js_startsWith l p) lines \<noteq> []"
    and l: "l = last (filter (\<lambda>l. js_startsWith l p) lines)"
    using assms by (auto simp: last_line_with_def Let_def split: if_splits)
  have "l \<in> set (filter (\<lambda>l. js_startsWith l p) lines)" using ne l last_in_set by blast
  then show ?thesis by simp
qed

lemma js_split_pieces: "l \<in> set (js_split s sep) \<Longrightarrow> set l \<subseteq> set s"
proof (induction s sep arbitrary: l rule: js_split.induct)
  case (1 sep)
  then show ?case by (auto split: if_splits)
next
  case (2 c cs sep)
  show ?case
  proof (cases "sep = []")
    case True
    then show ?thesis using 2 by auto
  next
    case ne: False
    show ?thesis
    proof (cases "js_startsWith (c # cs) sep")
      case True
      then have "l = [] \<or> l \<in> set (js_split (drop (length sep) (c # cs)) sep)"
        using "2.prems" ne by simp
      then show ?thesis
      proof
        assume "l = []" then show ?thesis by simp
      next
        assume "l \<in> set (js_split (drop (length sep) (c # cs)) sep)"
        then have "set l \<subseteq> set (drop (length sep) (c # cs))" using "2.IH"(2)[OF ne True] by blast
        then show ?thesis using set_drop_subset by fastforce
      qed
    next
      case False
      obtain p ps where sp: "js_split cs sep = p # ps"
        using js_split_nonempty[OF ne, of cs] by (cases "js_split cs sep") auto
      have "l = c # p \<or> l \<in> set ps" using "2.prems" ne False sp by simp
      then show ?thesis
      proof
        assume "l = c # p"
        moreover have "set p \<subseteq> set cs" using "2.IH"(3)[OF ne False, of p] sp by simp
        ultimately show ?thesis by auto
      next
        assume "l \<in> set ps"
        then have "set l \<subseteq> set cs" using "2.IH"(3)[OF ne False, of l] sp by simp
        then show ?thesis by auto
      qed
    qed
  qed
qed

lemma js_trim_empty: "(js_trim s = []) = (\<forall>c \<in> set s. is_js_whitespace c)"
proof
  assume "js_trim s = []"
  then have all: "\<forall>c \<in> set (dropWhile is_js_whitespace s). is_js_whitespace c"
    by (simp add: js_trim_def dropWhile_eq_Nil_conv)
  have "dropWhile is_js_whitespace s = []"
  proof (rule ccontr)
    assume ne: "dropWhile is_js_whitespace s \<noteq> []"
    then have "\<not> is_js_whitespace (hd (dropWhile is_js_whitespace s))" by (rule hd_dropWhile)
    moreover have "hd (dropWhile is_js_whitespace s) \<in> set (dropWhile is_js_whitespace s)"
      using ne by simp
    ultimately show False using all by blast
  qed
  then show "\<forall>c \<in> set s. is_js_whitespace c" by (simp add: dropWhile_eq_Nil_conv)
next
  assume "\<forall>c \<in> set s. is_js_whitespace c"
  then have d: "dropWhile is_js_whitespace s = []" by (simp add: dropWhile_eq_Nil_conv)
  show "js_trim s = []" unfolding js_trim_def d by simp
qed

lemma blank_line_no_prefix:
  assumes "\<forall>c \<in> set l. is_js_whitespace c"
  shows "\<not> js_startsWith l (ascii ''event: '')" and "\<not> js_startsWith l (ascii ''data: '')"
  using assms by (cases l; auto simp: js_startsWith_def ascii_def is_js_whitespace_def)+

lemma blank_message_payload:
  assumes "js_trim m = []"
  shows "payload_of m = []"
proof -
  have "\<forall>l \<in> set (js_split m [LF]). \<not> js_startsWith l (ascii ''data: '')"
    using assms js_split_pieces blank_line_no_prefix(2) unfolding js_trim_empty by blast
  then have "last_line_with (ascii ''data: '') (js_split m [LF]) = None"
    by (simp add: last_line_with_None)
  then show ?thesis by (simp add: payload_of_def scan_lines_last)
qed

lemma message_events_payload:
  "message_events parse m =
     (if payload_of m = [] then []
      else (case parse (payload_of m) of
              None \<Rightarrow> [\<lparr>event = ascii ''error'',
                        data = ErrorInfo (ascii ''Failed to parse SSE data'')\<rparr>]
            | Some v \<Rightarrow> [\<lparr>event = event_name_of m, data = Decoded v\<rparr>]))"
  using blank_message_payload[of m] by (auto simp: message_events_def)

lemma handle_message_no_payload:
  "payload_of m = [] \<Longrightarrow> handle_message parse onEvent m st = (None, st)"
  by (auto simp: handle_message_def payload_of_def split: prod.splits)

section \<open>Framing is independent of the chunk boundaries\<close>

lemma never_throws_returning: "never_throws returning"
  by (simp add: never_throws_def returning_def)

text \<open>
  Claim C1, as the code has it. Whatever the division of the text into read chunks, and
  for a callback that returns from every call: after the reads the buffer holds exactly the text behind
  the last \<open>\n\n\<close> terminator; the callback invocations made are those of the terminated
  messages of the whole text, each message handled once, in order; at \<open>done\<close> the
  unterminated rest is not delivered; two divisions of the same text give the same run.
  Handling a message means one turn of the loop body, which invokes the callback
  exactly once when the payload of the message is not empty, and not at all otherwise.
\<close>

theorem chunk_boundaries_irrelevant:
  assumes "never_throws onEvent"
  shows "buffer (snd (read_loop parse onEvent (map Chunk chunks) initial_state)) =
           trailing_text (concat chunks)
       \<and> calls (snd (read_loop parse onEvent (map Chunk chunks) initial_state)) =
           concat (map (message_events parse) (terminated_messages (concat chunks)))
       \<and> streamQuery parse onEvent (ok_response (map Chunk chunks @ Done # rest)) =
           \<lparr>invocations = concat (map (message_events parse) (terminated_messages (concat chunks))),
            outcome = Settled\<rparr>
       \<and> (\<forall>others. concat others = concat chunks \<longrightarrow>
             streamQuery parse onEvent (ok_response (map Chunk others @ Done # rest)) =
             streamQuery parse onEvent (ok_response (map Chunk chunks @ Done # rest)))
       \<and> (\<forall>m st. fst (handle_message parse onEvent m st) = None
             \<and> calls (snd (handle_message parse onEvent m st)) = calls st @ message_events parse m)
       \<and> (\<forall>m. length (message_events parse m) = (if payload_of m = [] then 0 else 1))"
proof -
  have one: "(\<forall>m st. fst (handle_message parse onEvent m st) = None
             \<and> calls (snd (handle_message parse onEvent m st)) = calls st @ message_events parse m)
       \<and> (\<forall>m. length (message_events parse m) = (if payload_of m = [] then 0 else 1))"
    using handle_message_returning(1,2)[OF assms, of parse]
    by (simp add: message_events_payload split: option.splits)
  have same: "\<forall>others. concat others = concat chunks \<longrightarrow>
             streamQuery parse onEvent (ok_response (map Chunk others @ Done # rest)) =
             streamQuery parse onEvent (ok_response (map Chunk chunks @ Done # rest))"
    by (simp add: streamQuery_returning[OF assms])
  show ?thesis
    using one same read_loop_initial(2,3)[OF assms, of parse chunks]
      streamQuery_returning[OF assms, of parse chunks rest]
    by simp
qed

text \<open>
  An instance: the reads cut the message inside its payload and inside the terminator,
  and the stream ends with a non-empty buffer.
\<close>

theorem chunk_boundaries_irrelevant_witness:
  "never_throws (returning :: json_literal handler)
   \<and> streamQuery parse_literal returning
       (ok_response [Chunk (ascii ''event: a\<newline>data: tr''), Chunk (ascii ''ue\<newline>''),
                     Chunk (ascii ''\<newline>data: nu''), Done]) =
       \<lparr>invocations = [\<lparr>event = ascii ''a'', data = Decoded JTrue\<rparr>], outcome = Settled\<rparr>
   \<and> buffer (snd (read_loop parse_literal returning
        [Chunk (ascii ''event: a\<newline>data: tr''), Chunk (ascii ''ue\<newline>''),
         Chunk (ascii ''\<newline>data: nu'')] initial_state)) = ascii ''data: nu''"
proof -
  have nt: "never_throws (returning :: json_literal handler)" by (rule never_throws_returning)
  have ev: "concat (map (message_events parse_literal)
       (terminated_messages (concat [ascii ''event: a\<newline>data: tr'', ascii ''ue\<newline>'', ascii ''\<newline>data: nu'']))) =
       [\<lparr>event = ascii ''a'', data = Decoded JTrue\<rparr>]"
    by code_simp
  have tt: "trailing_text (concat [ascii ''event: a\<newline>data: tr'', ascii ''ue\<newline>'', ascii ''\<newline>data: nu'']) = ascii ''data: nu''"
    by code_simp
  show ?thesis
    using chunk_boundaries_irrelevant[OF nt, of parse_literal
        "[ascii ''event: a\<newline>data: tr'', ascii ''ue\<newline>'', ascii ''\<newline>data: nu'']" "[]"]
      nt ev tt
    by simp
qed

text \<open>
  Claim C1 as it is worded says that every terminated message reaches the callback
  exactly once. The message \<open>event: ping\<close> is terminated and reaches it zero times. And
  when the callback throws from its first call, the one message \<open>data: true\<close> leads to
  two invocations: the call inside the \<open>try\<close> block, and the call in its \<open>catch\<close>.
\<close>

theorem event_only_message_not_delivered:
  "terminated_messages (ascii ''event: ping\<newline>\<newline>'') = [ascii ''event: ping'']
   \<and> invocations (streamQuery parse_literal returning
        (ok_response [Chunk (ascii ''event: ping\<newline>\<newline>''), Done])) = []
   \<and> length (invocations (streamQuery parse_literal returning
        (ok_response [Chunk (ascii ''event: ping\<newline>\<newline>''), Done])))
       \<noteq> length (terminated_messages (ascii ''event: ping\<newline>\<newline>''))
   \<and> terminated_messages (ascii ''data: true\<newline>\<newline>'') = [ascii ''data: true'']
   \<and> invocations (streamQuery parse_literal throws_first
        (ok_response [Chunk (ascii ''data: true\<newline>\<newline>''), Done])) =
       [\<lparr>event = ascii ''message'', data = Decoded JTrue\<rparr>,
        \<lparr>event = ascii ''error'', data = ErrorInfo (ascii ''Failed to parse SSE data'')\<rparr>]"
  by code_simp

section \<open>One message\<close>

lemma payload_not_blank: "payload_of m \<noteq> [] \<Longrightarrow> js_trim m \<noteq> []"
  using blank_message_payload by blast

lemma handle_message_parse_error:
  assumes "payload_of m \<noteq> []" and "parse (payload_of m) = None"
  shows "handle_message parse onEvent m st =
     call onEvent (error_event (ascii ''Failed to parse SSE data'')) st"
  using assms payload_not_blank[OF assms(1)]
  by (auto simp: handle_message_def payload_of_def split: prod.splits)

lemma handle_message_parse_error_calls:
  assumes "payload_of m \<noteq> []" and "parse (payload_of m) = None"
  shows "calls (snd (handle_message parse onEvent m st)) =
     calls st @ [\<lparr>event = ascii ''error'', data = ErrorInfo (ascii ''Failed to parse SSE data'')\<rparr>]"
  using handle_message_parse_error[where m=m and parse=parse and onEvent=onEvent and st=st, OF assms]
  by (simp add: call_def error_event_def)

lemma handle_message_parsed:
  assumes "payload_of m \<noteq> []" and "parse (payload_of m) = Some v"
    and "onEvent (calls st) \<lparr>event = event_name_of m, data = Decoded v\<rparr> = None"
  shows "handle_message parse onEvent m st =
     (None, st\<lparr>eventCount := eventCount st + 1,
               calls := calls st @ [\<lparr>event = event_name_of m, data = Decoded v\<rparr>]\<rparr>)"
  using assms payload_not_blank[OF assms(1)]
  by (auto simp: handle_message_def payload_of_def event_name_of_def call_def split: prod.splits)

lemma handle_message_parsed_calls:
  assumes "payload_of m \<noteq> []" and "parse (payload_of m) = Some v"
  shows "calls (snd (handle_message parse onEvent m st)) =
     calls st @ \<lparr>event = event_name_of m, data = Decoded v\<rparr>
       # (case onEvent (calls st) \<lparr>event = event_name_of m, data = Decoded v\<rparr> of
            None \<Rightarrow> []
          | Some x \<Rightarrow> [\<lparr>event = ascii ''error'',
                        data = ErrorInfo (ascii ''Failed to parse SSE data'')\<rparr>])"
  using assms payload_not_blank[OF assms(1)]
  by (auto simp: handle_message_def payload_of_def event_name_of_def call_def error_event_def
      split: prod.splits option.splits)

lemma payload_from_data_line:
  "(if \<exists>l \<in> set (js_split m [LF]). js_startsWith l (ascii ''data: '')
    then \<exists>l \<in> set (js_split m [LF]).
           js_startsWith l (ascii ''data: '') \<and> payload_of m = js_trim (js_slice l 6)
    else payload_of m = [])"
proof (cases "last_line_with (ascii ''data: '') (js_split m [LF])")
  case None
  then have "payload_of m = []" by (simp add: payload_of_def scan_lines_last)
  then show ?thesis using None by (simp add: last_line_with_None)
next
  case (Some l)
  then have "payload_of m = js_trim (js_slice l 6)" by (simp add: payload_of_def scan_lines_last)
  then show ?thesis using last_line_with_Some[OF Some] by auto
qed

lemma event_name_from_event_line:
  "(if \<exists>l \<in> set (js_split m [LF]). js_startsWith l (ascii ''event: '')
    then \<exists>l \<in> set (js_split m [LF]).
           js_startsWith l (ascii ''event: '') \<and> event_name_of m = js_trim (js_slice l 7)
    else event_name_of m = ascii ''message'')"
proof (cases "last_line_with (ascii ''event: '') (js_split m [LF])")
  case None
  then have "event_name_of m = ascii ''message''" by (simp add: event_name_of_def scan_lines_last)
  then show ?thesis using None by (simp add: last_line_with_None)
next
  case (Some l)
  then have "event_name_of m = js_trim (js_slice l 7)" by (simp add: event_name_of_def scan_lines_last)
  then show ?thesis using last_line_with_Some[OF Some] by auto
qed

lemma streamQuery_at_message:
  assumes "never_throws onEvent"
    and "terminated_messages (concat chunks) = before @ m # after"
  shows "streamQuery parse onEvent (ok_response (map Chunk chunks @ Done # rest)) =
     \<lparr>invocations = concat (map (message_events parse) before) @ message_events parse m
        @ concat (map (message_events parse) after),
      outcome = Settled\<rparr>"
  using streamQuery_returning[OF assms(1), of parse chunks rest] assms(2) by simp

text \<open>
  Claim C4, as the code has it. Take any complete message of the stream, wherever the
  reads cut the stream, and a callback that returns from every call. The message is
  split into its lines at \<open>\n\<close>; its payload is the trimmed rest of a line that starts
  with \<open>data: \<close> (empty when there is none), its event name the trimmed rest of a line
  that starts with \<open>event: \<close> (\<open>message\<close> when there is none). When the payload is not
  empty and parses as JSON, \<open>streamQuery\<close> invokes the callback exactly once for the
  message, with that event name and the decoded value, between the invocations for the
  messages before it and those for the messages behind it. For a message of whitespace
  only it makes no invocation.
\<close>

theorem each_message_decoded_and_delivered:
  assumes "never_throws onEvent"
    and "terminated_messages (concat chunks) = before @ m # after"
  shows "(payload_of m \<noteq> [] \<and> parse (payload_of m) = Some v \<longrightarrow>
            streamQuery parse onEvent (ok_response (map Chunk chunks @ Done # rest)) =
              \<lparr>invocations = concat (map (message_events parse) before)
                 @ \<lparr>event = event_name_of m, data = Decoded v\<rparr>
                 # concat (map (message_events parse) after),
               outcome = Settled\<rparr>)
       \<and> (js_trim m = [] \<longrightarrow>
            streamQuery parse onEvent (ok_response (map Chunk chunks @ Done # rest)) =
              \<lparr>invocations = concat (map (message_events parse) before)
                 @ concat (map (message_events parse) after),
               outcome = Settled\<rparr>)
       \<and> (if \<exists>l \<in> set (js_split m [LF]). js_startsWith l (ascii ''data: '')
           then \<exists>l \<in> set (js_split m [LF]).
                  js_startsWith l (ascii ''data: '') \<and> payload_of m = js_trim (js_slice l 6)
           else payload_of m = [])
       \<and> (if \<exists>l \<in> set (js_split m [LF]). js_startsWith l (ascii ''event: '')
           then \<exists>l \<in> set (js_split m [LF]).
                  js_startsWith l (ascii ''event: '') \<and> event_name_of m = js_trim (js_slice l 7)
           else event_name_of m = ascii ''message'')"
proof -
  note run = streamQuery_at_message[OF assms, of parse rest]
  have a: "payload_of m \<noteq> [] \<and> parse (payload_of m) = Some v \<longrightarrow>
            streamQuery parse onEvent (ok_response (map Chunk chunks @ Done # rest)) =
              \<lparr>invocations = concat (map (message_events parse) before)
                 @ \<lparr>event = event_name_of m, data = Decoded v\<rparr>
                 # concat (map (message_events parse) after),
               outcome = Settled\<rparr>"
    using run by (simp add: message_events_payload)
  have b: "js_trim m = [] \<longrightarrow>
            streamQuery parse onEvent (ok_response (map Chunk chunks @ Done # rest)) =
              \<lparr>invocations = concat (map (message_events parse) before)
                 @ concat (map (message_events parse) after),
               outcome = Settled\<rparr>"
    using run by (simp add: message_events_def)
  show ?thesis
    using a b payload_from_data_line[of m] event_name_from_event_line[of m] by blast
qed

text \<open>
  An instance: a stream of a message with both fields, cut inside its payload, and a
  blank message behind it.
\<close>

theorem each_message_decoded_and_delivered_witness:
  "never_throws (returning :: json_literal handler)
   \<and> terminated_messages (concat [ascii ''event: sql\<newline>data: tr'', ascii ''ue\<newline>\<newline> \<newline> \<newline>\<newline>''])
       = [ascii ''event: sql\<newline>data: true'', ascii '' \<newline> '']
   \<and> js_split (ascii ''event: sql\<newline>data: true'') [LF] = [ascii ''event: sql'', ascii ''data: true'']
   \<and> payload_of (ascii ''event: sql\<newline>data: true'') = ascii ''true''
   \<and> event_name_of (ascii ''event: sql\<newline>data: true'') = ascii ''sql''
   \<and> parse_literal (ascii ''true'') = Some JTrue
   \<and> js_trim (ascii '' \<newline> '') = []
   \<and> streamQuery parse_literal returning
        (ok_response [Chunk (ascii ''event: sql\<newline>data: tr''),
                      Chunk (ascii ''ue\<newline>\<newline> \<newline> \<newline>\<newline>''), Done]) =
       \<lparr>invocations = [\<lparr>event = ascii ''sql'', data = Decoded JTrue\<rparr>], outcome = Settled\<rparr>"
proof -
  let ?chunks = "[ascii ''event: sql\<newline>data: tr'', ascii ''ue\<newline>\<newline> \<newline> \<newline>\<newline>'']"
  have nt: "never_throws (returning :: json_literal handler)" by (rule never_throws_returning)
  have t: "terminated_messages (concat ?chunks) = [ascii ''event: sql\<newline>data: true'', ascii '' \<newline> '']"
    by code_simp
  have t1: "terminated_messages (concat ?chunks) = [] @ ascii ''event: sql\<newline>data: true'' # [ascii '' \<newline> '']"
    using t by simp
  have l: "js_split (ascii ''event: sql\<newline>data: true'') [LF] = [ascii ''event: sql'', ascii ''data: true'']"
    by code_simp
  have p: "payload_of (ascii ''event: sql\<newline>data: true'') = ascii ''true''" by code_simp
  have e: "event_name_of (ascii ''event: sql\<newline>data: true'') = ascii ''sql''" by code_simp
  have ne: "ascii ''true'' \<noteq> []" by (simp add: ascii_def)
  have v: "parse_literal (ascii ''true'') = Some JTrue" by (simp add: parse_literal_def)
  have b: "js_trim (ascii '' \<newline> '') = []" by code_simp
  have bl: "message_events parse_literal (ascii '' \<newline> '') = []"
    using b by (simp add: message_events_def)
  show ?thesis
    using each_message_decoded_and_delivered[where onEvent="returning :: json_literal handler"
        and parse=parse_literal and chunks="?chunks" and before="[]"
        and m="ascii ''event: sql\<newline>data: true''" and after="[ascii '' \<newline> '']"
        and v=JTrue and rest="[]", OF nt t1]
      nt t l p e ne v b bl
    by simp
qed

text \<open>
  Claim C4 as it is worded has the callback invoked once, with the decoded payload, for
  each complete message that is not of whitespace only. The message \<open>event: done\<close> is
  complete, is not blank and has a line that starts with \<open>event: \<close>, and the callback
  is not invoked for it: without a payload the guard \<open>if (data)\<close> skips it. For the
  message \<open>event: sql\<close>, \<open>data: {oops\<close> the payload does not decode, and the callback
  gets the \<open>error\<close> event in place of \<open>{event: 'sql', data: ...}\<close>. And a callback that
  throws from its first call is invoked twice for the message \<open>event: sql\<close>,
  \<open>data: null\<close>.
\<close>

theorem message_without_data_gets_no_callback:
  "terminated_messages (ascii ''event: done\<newline>\<newline>'') = [ascii ''event: done'']
   \<and> js_trim (ascii ''event: done'') = ascii ''event: done''
   \<and> js_split (ascii ''event: done'') [LF] = [ascii ''event: done'']
   \<and> js_startsWith (ascii ''event: done'') (ascii ''event: '')
   \<and> streamQuery parse_literal returning
        (ok_response [Chunk (ascii ''event: done\<newline>\<newline>''), Done]) =
       \<lparr>invocations = [], outcome = Settled\<rparr>
   \<and> terminated_messages (ascii ''event: sql\<newline>data: {oops\<newline>\<newline>'')
       = [ascii ''event: sql\<newline>data: {oops'']
   \<and> streamQuery parse_literal returning
        (ok_response [Chunk (ascii ''event: sql\<newline>data: {oops\<newline>\<newline>''), Done]) =
       \<lparr>invocations = [\<lparr>event = ascii ''error'',
                        data = ErrorInfo (ascii ''Failed to parse SSE data'')\<rparr>],
        outcome = Settled\<rparr>
   \<and> terminated_messages (ascii ''event: sql\<newline>data: null\<newline>\<newline>'')
       = [ascii ''event: sql\<newline>data: null'']
   \<and> streamQuery parse_literal throws_first
        (ok_response [Chunk (ascii ''event: sql\<newline>data: null\<newline>\<newline>''), Done]) =
       \<lparr>invocations = [\<lparr>event = ascii ''sql'', data = Decoded JNull\<rparr>,
                       \<lparr>event = ascii ''error'',
                        data = ErrorInfo (ascii ''Failed to parse SSE data'')\<rparr>],
        outcome = Settled\<rparr>"
  by code_simp

text \<open>
  Claim C7. Of several \<open>data: \<close> lines in one message only the last one counts: the
  payload is the trimmed rest of that line alone, whatever the lines before it hold.
  When it is not empty and parses, the first invocation the loop body makes for the
  message, whatever the callback does, carries the JSON decode of it; and for a
  callback that returns, \<open>streamQuery\<close> makes exactly this one invocation for the
  message, wherever the message stands in the stream and wherever the reads cut the
  stream. The same holds for several \<open>event: \<close> lines and the event name.
\<close>

theorem last_field_line_wins:
  "(js_split m [LF] = pre @ d # post \<and> js_startsWith d (ascii ''data: '')
      \<and> (\<forall>k \<in> set post. \<not> js_startsWith k (ascii ''data: '')) \<longrightarrow>
        payload_of m = js_trim (js_slice d 6)
        \<and> (js_trim (js_slice d 6) \<noteq> [] \<and> parse (js_trim (js_slice d 6)) = Some v \<longrightarrow>
             calls (snd (handle_message parse onEvent m st)) =
               calls st @ \<lparr>event = event_name_of m, data = Decoded v\<rparr>
                 # (case onEvent (calls st) \<lparr>event = event_name_of m, data = Decoded v\<rparr> of
                      None \<Rightarrow> []
                    | Some x \<Rightarrow> [\<lparr>event = ascii ''error'',
                                  data = ErrorInfo (ascii ''Failed to parse SSE data'')\<rparr>])
             \<and> (never_throws onEvent
                  \<and> terminated_messages (concat chunks) = before @ m # after \<longrightarrow>
                streamQuery parse onEvent (ok_response (map Chunk chunks @ Done # rest)) =
                  \<lparr>invocations = concat (map (message_events parse) before)
                     @ \<lparr>event = event_name_of m, data = Decoded v\<rparr>
                     # concat (map (message_events parse) after),
                   outcome = Settled\<rparr>)))
   \<and> (js_split m [LF] = pre' @ e # post' \<and> js_startsWith e (ascii ''event: '')
      \<and> (\<forall>k \<in> set post'. \<not> js_startsWith k (ascii ''event: '')) \<longrightarrow>
        event_name_of m = js_trim (js_slice e 7))"
proof -
  have a: "payload_of m = js_trim (js_slice d 6)"
    if "js_split m [LF] = pre @ d # post" "js_startsWith d (ascii ''data: '')"
      "\<forall>k \<in> set post. \<not> js_startsWith k (ascii ''data: '')"
    using that last_line_with_append[of d "ascii ''data: ''" post pre]
    by (simp add: payload_of_def scan_lines_last)
  have b: "event_name_of m = js_trim (js_slice e 7)"
    if "js_split m [LF] = pre' @ e # post'" "js_startsWith e (ascii ''event: '')"
      "\<forall>k \<in> set post'. \<not> js_startsWith k (ascii ''event: '')"
    using that last_line_with_append[of e "ascii ''event: ''" post' pre']
    by (simp add: event_name_of_def scan_lines_last)
  have c: "calls (snd (handle_message parse onEvent m st)) =
               calls st @ \<lparr>event = event_name_of m, data = Decoded v\<rparr>
                 # (case onEvent (calls st) \<lparr>event = event_name_of m, data = Decoded v\<rparr> of
                      None \<Rightarrow> []
                    | Some x \<Rightarrow> [\<lparr>event = ascii ''error'',
                                  data = ErrorInfo (ascii ''Failed to parse SSE data'')\<rparr>])"
    if "payload_of m \<noteq> []" "parse (payload_of m) = Some v"
    using handle_message_parsed_calls[where m=m and parse=parse and v=v and onEvent=onEvent
        and st=st, OF that] .
  have d: "streamQuery parse onEvent (ok_response (map Chunk chunks @ Done # rest)) =
                  \<lparr>invocations = concat (map (message_events parse) before)
                     @ \<lparr>event = event_name_of m, data = Decoded v\<rparr>
                     # concat (map (message_events parse) after),
                   outcome = Settled\<rparr>"
    if "payload_of m \<noteq> []" "parse (payload_of m) = Some v" "never_throws onEvent"
      "terminated_messages (concat chunks) = before @ m # after"
    using streamQuery_at_message[OF that(3,4), of parse rest] that(1,2)
    by (simp add: message_events_payload)
  show ?thesis using a b c d by auto
qed

text \<open>
  An instance with two lines of each kind, in a stream cut inside the first \<open>data: \<close>
  line: the callback gets \<open>null\<close>, not \<open>true\<close> and not the two joined by a newline.
\<close>

theorem last_field_line_wins_witness:
  "js_split (ascii ''event: a\<newline>data: true\<newline>event: b\<newline>data: null'') [LF] =
      [ascii ''event: a'', ascii ''data: true'', ascii ''event: b'', ascii ''data: null'']
   \<and> js_startsWith (ascii ''data: null'') (ascii ''data: '')
   \<and> js_startsWith (ascii ''event: b'') (ascii ''event: '')
   \<and> \<not> js_startsWith (ascii ''data: null'') (ascii ''event: '')
   \<and> js_trim (js_slice (ascii ''data: null'') 6) = ascii ''null''
   \<and> js_trim (js_slice (ascii ''event: b'') 7) = ascii ''b''
   \<and> parse_literal (ascii ''null'') = Some JNull
   \<and> never_throws (returning :: json_literal handler)
   \<and> terminated_messages (concat [ascii ''event: a\<newline>data: tr'',
          ascii ''ue\<newline>event: b\<newline>data: null\<newline>\<newline>''])
       = [ascii ''event: a\<newline>data: true\<newline>event: b\<newline>data: null'']
   \<and> streamQuery parse_literal returning
        (ok_response [Chunk (ascii ''event: a\<newline>data: tr''),
                      Chunk (ascii ''ue\<newline>event: b\<newline>data: null\<newline>\<newline>''), Done]) =
       \<lparr>invocations = [\<lparr>event = ascii ''b'', data = Decoded JNull\<rparr>], outcome = Settled\<rparr>"
proof -
  let ?m = "ascii ''event: a\<newline>data: true\<newline>event: b\<newline>data: null''"
  let ?chunks = "[ascii ''event: a\<newline>data: tr'', ascii ''ue\<newline>event: b\<newline>data: null\<newline>\<newline>'']"
  have s: "js_split ?m [LF] = [ascii ''event: a'', ascii ''data: true'', ascii ''event: b'', ascii ''data: null'']"
    by code_simp
  have s1: "js_split ?m [LF] = [ascii ''event: a'', ascii ''data: true'', ascii ''event: b''] @ ascii ''data: null'' # []"
    using s by simp
  have s2: "js_split ?m [LF] = [ascii ''event: a'', ascii ''data: true''] @ ascii ''event: b'' # [ascii ''data: null'']"
    using s by simp
  have d: "js_startsWith (ascii ''data: null'') (ascii ''data: '')" by code_simp
  have e: "js_startsWith (ascii ''event: b'') (ascii ''event: '')" by code_simp
  have ne: "\<not> js_startsWith (ascii ''data: null'') (ascii ''event: '')" by code_simp
  have td: "js_trim (js_slice (ascii ''data: null'') 6) = ascii ''null''" by code_simp
  have te: "js_trim (js_slice (ascii ''event: b'') 7) = ascii ''b''" by code_simp
  have nn: "ascii ''null'' \<noteq> []" by (simp add: ascii_def)
  have pl: "parse_literal (ascii ''null'') = Some JNull" by code_simp
  have nt: "never_throws (returning :: json_literal handler)" by (rule never_throws_returning)
  have t: "terminated_messages (concat ?chunks) = [?m]" by code_simp
  have t1: "terminated_messages (concat ?chunks) = [] @ ?m # []" using t by simp
  show ?thesis
    using last_field_line_wins[where m="?m"
        and pre="[ascii ''event: a'', ascii ''data: true'', ascii ''event: b'']"
        and d="ascii ''data: null''" and post="[]"
        and pre'="[ascii ''event: a'', ascii ''data: true'']"
        and e="ascii ''event: b''" and post'="[ascii ''data: null'']" and parse=parse_literal
        and onEvent="returning :: json_literal handler" and st=initial_state and v=JNull
        and chunks="?chunks" and before="[]" and after="[]" and rest="[]"]
      s s1 s2 d e ne td te nn pl nt t t1
    by simp
qed

text \<open>
  Claim C8. A message with no line that starts with \<open>data: \<close>, or whose payload trims
  to the empty string, leads to no callback invocation, whatever the callback and the
  parser are: the state is unchanged and the loop goes on with the next message.
\<close>

theorem message_without_payload_skipped:
  assumes "(\<forall>l \<in> set (js_split m [LF]). \<not> js_startsWith l (ascii ''data: '')) \<or> payload_of m = []"
  shows "handle_message parse onEvent m st = (None, st)
    \<and> for_messages parse onEvent (m # ms) st = for_messages parse onEvent ms st"
proof -
  have "payload_of m = []"
  proof (cases "payload_of m = []")
    case True
    then show ?thesis .
  next
    case False
    then have "\<forall>l \<in> set (js_split m [LF]). \<not> js_startsWith l (ascii ''data: '')"
      using assms by blast
    then have "last_line_with (ascii ''data: '') (js_split m [LF]) = None"
      by (simp add: last_line_with_None)
    then show ?thesis by (simp add: payload_of_def scan_lines_last)
  qed
  then have "handle_message parse onEvent m st = (None, st)" by (rule handle_message_no_payload)
  then show ?thesis by simp
qed

text \<open>
  Instances: an event-only message, a message whose payload is blank, and a comment
  line followed by a message that is delivered.
\<close>

theorem message_without_payload_skipped_witness:
  "js_split (ascii ''event: ping'') [LF] = [ascii ''event: ping'']
   \<and> \<not> js_startsWith (ascii ''event: ping'') (ascii ''data: '')
   \<and> handle_message parse_literal returning (ascii ''event: ping'') initial_state = (None, initial_state)
   \<and> payload_of (ascii ''event: x\<newline>data:  '') = []
   \<and> handle_message parse_literal returning (ascii ''event: x\<newline>data:  '') initial_state = (None, initial_state)
   \<and> invocations (streamQuery parse_literal returning
        (ok_response [Chunk (ascii '': keep-alive\<newline>\<newline>data: true\<newline>\<newline>''), Done])) =
       [\<lparr>event = ascii ''message'', data = Decoded JTrue\<rparr>]"
proof -
  have l: "js_split (ascii ''event: ping'') [LF] = [ascii ''event: ping'']" by code_simp
  have n: "\<not> js_startsWith (ascii ''event: ping'') (ascii ''data: '')" by code_simp
  have a: "\<forall>l \<in> set (js_split (ascii ''event: ping'') [LF]). \<not> js_startsWith l (ascii ''data: '')"
    using l n by simp
  have b: "payload_of (ascii ''event: x\<newline>data:  '') = []" by code_simp
  have c: "invocations (streamQuery parse_literal returning
        (ok_response [Chunk (ascii '': keep-alive\<newline>\<newline>data: true\<newline>\<newline>''), Done])) =
       [\<lparr>event = ascii ''message'', data = Decoded JTrue\<rparr>]"
    by code_simp
  show ?thesis
    using message_without_payload_skipped[where m="ascii ''event: ping''" and parse=parse_literal
        and onEvent=returning and st=initial_state and ms="[]"]
      message_without_payload_skipped[where m="ascii ''event: x\<newline>data:  ''" and parse=parse_literal
        and onEvent=returning and st=initial_state and ms="[]"]
      l n a b c
    by simp
qed

section \<open>Parse failures and the order of the callbacks\<close>

text \<open>
  Claim C2, as the code has it. When \<open>JSON.parse\<close> fails on the payload of a message,
  the callback is invoked with \<open>{event: 'error', data: {error: 'Failed to parse SSE
  data'}}\<close>, whatever the callback does then. For a callback that returns from every
  call, no exception leaves the loop body, the read loop is still reading behind any
  number of such messages, and the messages behind the malformed one are handled as
  usual: each one whose payload parses is delivered with its decoded value.
\<close>

theorem parse_failure_reported_stream_continues:
  assumes "payload_of bad \<noteq> []" and "parse (payload_of bad) = None"
  shows "calls (snd (handle_message parse onEvent bad st)) =
           calls st @ [\<lparr>event = ascii ''error'',
                         data = ErrorInfo (ascii ''Failed to parse SSE data'')\<rparr>]
       \<and> (never_throws onEvent \<longrightarrow>
            handle_message parse onEvent bad st =
              (None, st\<lparr>calls := calls st @ [\<lparr>event = ascii ''error'',
                         data = ErrorInfo (ascii ''Failed to parse SSE data'')\<rparr>]\<rparr>)
            \<and> fst (read_loop parse onEvent (map Chunk chunks) initial_state) = Suspended)
       \<and> (never_throws onEvent \<and> terminated_messages (concat chunks) = pre @ bad # post \<longrightarrow>
            streamQuery parse onEvent (ok_response (map Chunk chunks @ Done # rest)) =
              \<lparr>invocations = concat (map (message_events parse) pre)
                 @ \<lparr>event = ascii ''error'',
                      data = ErrorInfo (ascii ''Failed to parse SSE data'')\<rparr>
                 # concat (map (message_events parse) post),
               outcome = Settled\<rparr>)
       \<and> (\<forall>w v. payload_of w \<noteq> [] \<and> parse (payload_of w) = Some v \<longrightarrow>
             message_events parse w = [\<lparr>event = event_name_of w, data = Decoded v\<rparr>])"
proof -
  note report = handle_message_parse_error_calls[where m=bad and parse=parse
      and onEvent=onEvent and st=st, OF assms]
  have a: "handle_message parse onEvent bad st =
              (None, st\<lparr>calls := calls st @ [\<lparr>event = ascii ''error'',
                         data = ErrorInfo (ascii ''Failed to parse SSE data'')\<rparr>]\<rparr>)"
    if "never_throws onEvent"
    using that handle_message_parse_error[where m=bad and parse=parse and onEvent=onEvent
        and st=st, OF assms]
    by (simp add: call_def never_throws_def error_event_def)
  have b: "fst (read_loop parse onEvent (map Chunk chunks) initial_state) = Suspended"
    if "never_throws onEvent"
    using that by (rule read_loop_initial(1))
  have bad: "message_events parse bad =
      [\<lparr>event = ascii ''error'', data = ErrorInfo (ascii ''Failed to parse SSE data'')\<rparr>]"
    using assms by (simp add: message_events_payload)
  have c: "streamQuery parse onEvent (ok_response (map Chunk chunks @ Done # rest)) =
              \<lparr>invocations = concat (map (message_events parse) pre)
                 @ \<lparr>event = ascii ''error'',
                      data = ErrorInfo (ascii ''Failed to parse SSE data'')\<rparr>
                 # concat (map (message_events parse) post),
               outcome = Settled\<rparr>"
    if "never_throws onEvent" "terminated_messages (concat chunks) = pre @ bad # post"
    using streamQuery_at_message[OF that, of parse rest] bad by simp
  have d: "\<forall>w v. payload_of w \<noteq> [] \<and> parse (payload_of w) = Some v \<longrightarrow>
             message_events parse w = [\<lparr>event = event_name_of w, data = Decoded v\<rparr>]"
    by (simp add: message_events_payload)
  show ?thesis using report a b c d by blast
qed

text \<open>
  An instance: a malformed payload, cut by a read, between two well-formed messages.
\<close>

theorem parse_failure_reported_stream_continues_witness:
  "never_throws (returning :: json_literal handler)
   \<and> payload_of (ascii ''data: {oops'') = ascii ''{oops''
   \<and> parse_literal (payload_of (ascii ''data: {oops'')) = None
   \<and> terminated_messages (concat [ascii ''data: true\<newline>\<newline>data: {oo'', ascii ''ps\<newline>\<newline>event: x\<newline>data: null\<newline>\<newline>''])
       = [ascii ''data: true'', ascii ''data: {oops'', ascii ''event: x\<newline>data: null'']
   \<and> handle_message parse_literal returning (ascii ''data: {oops'') initial_state =
       (None, \<lparr>buffer = [], eventCount = 0,
               calls = [\<lparr>event = ascii ''error'',
                         data = ErrorInfo (ascii ''Failed to parse SSE data'')\<rparr>]\<rparr>)
   \<and> streamQuery parse_literal returning
        (ok_response [Chunk (ascii ''data: true\<newline>\<newline>data: {oo''),
                      Chunk (ascii ''ps\<newline>\<newline>event: x\<newline>data: null\<newline>\<newline>''), Done]) =
       \<lparr>invocations = [\<lparr>event = ascii ''message'', data = Decoded JTrue\<rparr>,
                       \<lparr>event = ascii ''error'',
                        data = ErrorInfo (ascii ''Failed to parse SSE data'')\<rparr>,
                       \<lparr>event = ascii ''x'', data = Decoded JNull\<rparr>],
        outcome = Settled\<rparr>"
proof -
  let ?chunks = "[ascii ''data: true\<newline>\<newline>data: {oo'', ascii ''ps\<newline>\<newline>event: x\<newline>data: null\<newline>\<newline>'']"
  have nt: "never_throws (returning :: json_literal handler)" by (rule never_throws_returning)
  have pv: "payload_of (ascii ''data: {oops'') = ascii ''{oops''" by code_simp
  have p: "payload_of (ascii ''data: {oops'') \<noteq> []" by code_simp
  have f: "parse_literal (payload_of (ascii ''data: {oops'')) = None" by code_simp
  have t: "terminated_messages (concat ?chunks)
       = [ascii ''data: true'', ascii ''data: {oops'', ascii ''event: x\<newline>data: null'']"
    by code_simp
  have t1: "terminated_messages (concat ?chunks)
       = [ascii ''data: true''] @ ascii ''data: {oops'' # [ascii ''event: x\<newline>data: null'']"
    using t by simp
  have e1: "message_events parse_literal (ascii ''data: true'') = [\<lparr>event = ascii ''message'', data = Decoded JTrue\<rparr>]"
    by code_simp
  have e2: "message_events parse_literal (ascii ''event: x\<newline>data: null'') = [\<lparr>event = ascii ''x'', data = Decoded JNull\<rparr>]"
    by code_simp
  show ?thesis
    using parse_failure_reported_stream_continues[where onEvent="returning :: json_literal handler"
        and parse=parse_literal and bad="ascii ''data: {oops''"
        and chunks="?chunks"
        and pre="[ascii ''data: true'']" and post="[ascii ''event: x\<newline>data: null'']"
        and st=initial_state and rest="[]", OF p f]
      nt pv p f t t1 e1 e2
    by (simp add: initial_state_def)
qed

text \<open>
  Claim C2 as it is worded has the loop go on behind every parse failure. When the
  callback throws from the call that reports the failure, the exception leaves the
  \<open>catch\<close> block and the loop: the outer handler reports it with a second \<open>error\<close>
  event, and the well-formed message \<open>data: true\<close> behind the malformed one is never
  delivered.
\<close>

theorem throwing_callback_ends_stream_at_parse_failure:
  "terminated_messages (ascii ''data: {oops\<newline>\<newline>data: true\<newline>\<newline>'')
     = [ascii ''data: {oops'', ascii ''data: true'']
   \<and> parse_literal (payload_of (ascii ''data: {oops'')) = None
   \<and> parse_literal (payload_of (ascii ''data: true'')) = Some JTrue
   \<and> fst (read_loop parse_literal throws_first
        [Chunk (ascii ''data: {oops\<newline>\<newline>data: true\<newline>\<newline>''), Done] initial_state)
       = Thrown (Thrown_object (new_Error (ascii ''boom'')))
   \<and> streamQuery parse_literal throws_first
        (ok_response [Chunk (ascii ''data: {oops\<newline>\<newline>data: true\<newline>\<newline>''), Done]) =
       \<lparr>invocations = [\<lparr>event = ascii ''error'',
                        data = ErrorInfo (ascii ''Failed to parse SSE data'')\<rparr>,
                       \<lparr>event = ascii ''error'', data = ErrorInfo (ascii ''boom'')\<rparr>],
        outcome = Settled\<rparr>"
  by code_simp

lemma split_at_two:
  assumes "i < j" and "j < length ms"
  shows "ms = take i ms @ ms ! i # take (j - Suc i) (drop (Suc i) ms) @ ms ! j # drop (Suc j) ms"
proof -
  have i: "i < length ms" using assms by simp
  have j': "j - Suc i < length (drop (Suc i) ms)" using assms by simp
  have "drop (Suc i) ms =
      take (j - Suc i) (drop (Suc i) ms) @ drop (Suc i) ms ! (j - Suc i)
        # drop (Suc (j - Suc i)) (drop (Suc i) ms)"
    using id_take_nth_drop[OF j'] .
  moreover have "drop (Suc i) ms ! (j - Suc i) = ms ! j" using assms by simp
  moreover have "drop (Suc (j - Suc i)) (drop (Suc i) ms) = drop (Suc j) ms" using assms by simp
  ultimately have "drop (Suc i) ms = take (j - Suc i) (drop (Suc i) ms) @ ms ! j # drop (Suc j) ms"
    by simp
  then show ?thesis using id_take_nth_drop[OF i] by simp
qed

text \<open>
  Claim C3. The callback invocations follow the order of the messages in the stream: for
  two terminated messages, the \<open>i\<close>-th before the \<open>j\<close>-th, the invocations are those of
  the messages before the \<open>i\<close>-th, then that of the \<open>i\<close>-th, then those of the messages
  between, then that of the \<open>j\<close>-th, then the rest.
\<close>

theorem callbacks_in_stream_order:
  assumes "never_throws onEvent"
    and "i < j" and "j < length (terminated_messages (concat chunks))"
  shows "invocations (streamQuery parse onEvent (ok_response (map Chunk chunks @ Done # rest))) =
      concat (map (message_events parse) (take i (terminated_messages (concat chunks))))
      @ message_events parse (terminated_messages (concat chunks) ! i)
      @ concat (map (message_events parse)
          (take (j - Suc i) (drop (Suc i) (terminated_messages (concat chunks)))))
      @ message_events parse (terminated_messages (concat chunks) ! j)
      @ concat (map (message_events parse) (drop (Suc j) (terminated_messages (concat chunks))))"
proof -
  let ?ms = "terminated_messages (concat chunks)"
  let ?f = "message_events parse"
  have "concat (map ?f ?ms) =
      concat (map ?f (take i ?ms @ ?ms ! i # take (j - Suc i) (drop (Suc i) ?ms) @ ?ms ! j # drop (Suc j) ?ms))"
    using split_at_two[OF assms(2,3)] by simp
  then have "concat (map ?f ?ms) =
      concat (map ?f (take i ?ms)) @ ?f (?ms ! i)
      @ concat (map ?f (take (j - Suc i) (drop (Suc i) ?ms)))
      @ ?f (?ms ! j) @ concat (map ?f (drop (Suc j) ?ms))"
    by simp
  then show ?thesis using streamQuery_returning[OF assms(1), of parse chunks rest] by simp
qed

text \<open>An instance with two messages and a read boundary inside the first terminator.\<close>

theorem callbacks_in_stream_order_witness:
  "never_throws (returning :: json_literal handler)
   \<and> (0::nat) < 1
   \<and> 1 < length (terminated_messages (concat [ascii ''data: true\<newline>'', ascii ''\<newline>data: false\<newline>\<newline>'']))
   \<and> invocations (streamQuery parse_literal returning
        (ok_response [Chunk (ascii ''data: true\<newline>''), Chunk (ascii ''\<newline>data: false\<newline>\<newline>''), Done])) =
       [\<lparr>event = ascii ''message'', data = Decoded JTrue\<rparr>,
        \<lparr>event = ascii ''message'', data = Decoded JFalse\<rparr>]"
proof -
  have nt: "never_throws (returning :: json_literal handler)" by (rule never_throws_returning)
  have ij: "(0::nat) < 1" by simp
  have t: "terminated_messages (concat [ascii ''data: true\<newline>'', ascii ''\<newline>data: false\<newline>\<newline>''])
       = [ascii ''data: true'', ascii ''data: false'']"
    by code_simp
  have len: "1 < length (terminated_messages (concat [ascii ''data: true\<newline>'', ascii ''\<newline>data: false\<newline>\<newline>'']))"
    using t by simp
  have e1: "message_events parse_literal (ascii ''data: true'') = [\<lparr>event = ascii ''message'', data = Decoded JTrue\<rparr>]"
    by code_simp
  have e2: "message_events parse_literal (ascii ''data: false'') = [\<lparr>event = ascii ''message'', data = Decoded JFalse\<rparr>]"
    by code_simp
  show ?thesis
    using callbacks_in_stream_order[where onEvent="returning :: json_literal handler"
        and parse=parse_literal and i=0 and j=1
        and chunks="[ascii ''data: true\<newline>'', ascii ''\<newline>data: false\<newline>\<newline>'']"
        and rest="[]", OF nt ij len]
      nt len t e1 e2
    by simp
qed

section \<open>The end of the stream and cancellation\<close>

lemma read_stream_Done:
  "snd (read_stream parse onEvent (map Chunk chunks @ Done # rest)) =
   snd (read_stream parse onEvent (map Chunk chunks))"
  using read_loop_chunks_not_Break[of parse onEvent chunks initial_state]
  by (auto simp: read_stream_def read_loop_Done
      split: prod.splits loop_exit.splits js_thrown.splits)

lemma read_stream_Done_promise:
  "fst (read_stream parse onEvent (map Chunk chunks @ Done # rest)) =
     (case fst (read_stream parse onEvent (map Chunk chunks)) of
        Forever_pending \<Rightarrow> Fulfilled | p \<Rightarrow> p)"
  using read_loop_chunks_not_Break[of parse onEvent chunks initial_state]
  by (auto simp: read_stream_def read_loop_Done
      split: prod.splits loop_exit.splits option.splits js_thrown.splits)

text \<open>
  Claim C6. At \<open>done\<close> the loop is left at once, with the state as it is and whatever
  the reader would deliver later; the callback invocations of a stream that ends are
  exactly those made for its chunks, so nothing is emitted for the end itself.
\<close>

theorem done_emits_nothing:
  "read_loop parse onEvent (Done # rest) st = (Break, st)
   \<and> invocations (streamQuery parse onEvent (ok_response (map Chunk chunks @ Done # rest))) =
       invocations (streamQuery parse onEvent (ok_response (map Chunk chunks)))"
proof -
  obtain p cs where a: "read_stream parse onEvent (map Chunk chunks) = (p, cs)" by force
  obtain p' cs' where b: "read_stream parse onEvent (map Chunk chunks @ Done # rest) = (p', cs')"
    by force
  have cs: "cs' = cs" using read_stream_Done[of parse onEvent chunks rest] a b by simp
  have p': "p' = (case p of Forever_pending \<Rightarrow> Fulfilled | q \<Rightarrow> q)"
    using read_stream_Done_promise[of parse onEvent chunks rest] a b by simp
  have "invocations (streamQuery parse onEvent (ok_response (map Chunk chunks @ Done # rest))) =
       invocations (streamQuery parse onEvent (ok_response (map Chunk chunks)))"
    using a b cs p'
    by (cases p) (simp_all add: streamQuery_def ok_response_def then_handler_def)
  then show ?thesis by simp
qed

text \<open>
  An instance: the stream ends inside a message, and a chunk behind \<open>done\<close> is never
  looked at.
\<close>

theorem done_emits_nothing_witness:
  "invocations (streamQuery parse_literal returning
      (ok_response [Chunk (ascii ''data: true\<newline>\<newline>data: false''), Done,
                    Chunk (ascii ''\<newline>\<newline>'')])) =
   [\<lparr>event = ascii ''message'', data = Decoded JTrue\<rparr>]"
proof -
  have p: "invocations (streamQuery parse_literal returning
      (ok_response [Chunk (ascii ''data: true\<newline>\<newline>data: false'')])) =
      [\<lparr>event = ascii ''message'', data = Decoded JTrue\<rparr>]"
    by code_simp
  show ?thesis
    using done_emits_nothing[where parse=parse_literal and onEvent=returning
        and chunks="[ascii ''data: true\<newline>\<newline>data: false'']"
        and rest="[Chunk (ascii ''\<newline>\<newline>'')]"] p
    by simp
qed

lemma read_stream_abort:
  assumes "err_name x = ascii ''AbortError''"
  shows "snd (read_stream parse onEvent (map Chunk chunks @ ReadRejected (Thrown_object x) # rest)) =
           snd (read_stream parse onEvent (map Chunk chunks))"
    and "fst (read_stream parse onEvent (map Chunk chunks @ ReadRejected (Thrown_object x) # rest)) =
           (case fst (read_stream parse onEvent (map Chunk chunks)) of
              Forever_pending \<Rightarrow> Fulfilled | p \<Rightarrow> p)"
  using assms read_loop_chunks_not_Break[of parse onEvent chunks initial_state]
  by (auto simp: read_stream_def read_loop_Rejected
      split: prod.splits loop_exit.splits option.splits js_thrown.splits)

lemma abort_rejection_swallowed:
  assumes "err_name x = ascii ''AbortError''"
  shows "streamQuery parse onEvent (Fetch_rejected (Thrown_object x)) =
      \<lparr>invocations = [], outcome = Settled\<rparr>"
    and "invocations (streamQuery parse onEvent
          (ok_response (map Chunk chunks @ ReadRejected (Thrown_object x) # rest))) =
        invocations (streamQuery parse onEvent (ok_response (map Chunk chunks)))"
    and "outcome (streamQuery parse onEvent
          (ok_response (map Chunk chunks @ ReadRejected (Thrown_object x) # rest))) =
        (case outcome (streamQuery parse onEvent (ok_response (map Chunk chunks))) of
           Pending \<Rightarrow> Settled | other \<Rightarrow> other)"
proof -
  show "streamQuery parse onEvent (Fetch_rejected (Thrown_object x)) =
      \<lparr>invocations = [], outcome = Settled\<rparr>"
    using assms by (simp add: streamQuery_def)
  obtain p cs where r: "read_stream parse onEvent (map Chunk chunks) = (p, cs)" by force
  obtain p' cs' where r':
    "read_stream parse onEvent (map Chunk chunks @ ReadRejected (Thrown_object x) # rest) = (p', cs')"
    by force
  have cs: "cs' = cs" using read_stream_abort(1)[OF assms, of parse onEvent chunks rest] r r' by simp
  have p': "p' = (case p of Forever_pending \<Rightarrow> Fulfilled | q \<Rightarrow> q)"
    using read_stream_abort(2)[OF assms, of parse onEvent chunks rest] r r' by simp
  show "invocations (streamQuery parse onEvent
          (ok_response (map Chunk chunks @ ReadRejected (Thrown_object x) # rest))) =
        invocations (streamQuery parse onEvent (ok_response (map Chunk chunks)))"
    using r r' cs p' by (cases p) (simp_all add: streamQuery_def ok_response_def then_handler_def)
  show "outcome (streamQuery parse onEvent
          (ok_response (map Chunk chunks @ ReadRejected (Thrown_object x) # rest))) =
        (case outcome (streamQuery parse onEvent (ok_response (map Chunk chunks))) of
           Pending \<Rightarrow> Settled | other \<Rightarrow> other)"
    using r r' cs p'
  proof (cases p)
    case (Rejected y)
    then show ?thesis using r r' cs p'
      by (cases y) (simp_all add: streamQuery_def ok_response_def then_handler_def
          split: option.splits)
  qed (simp_all add: streamQuery_def ok_response_def then_handler_def)
qed

lemma platform_fetch_cancelled:
  "platform_fetch streamQuery_init (returned_function new_AbortController) at script =
     aborted_at at script"
  by (simp add: platform_fetch_def streamQuery_init_def returned_function_def
      controller_abort_def controller_signal_def)

lemma streamQuery_Done_rest:
  "streamQuery parse onEvent (ok_response (map Chunk chunks @ Done # rest)) =
   streamQuery parse onEvent (ok_response (map Chunk chunks @ Done # rest'))"
  by (simp add: streamQuery_def ok_response_def then_handler_def read_stream_def read_loop_Done)

text \<open>
  Claim C5. The caller calls the function that \<open>streamQuery\<close> returned. When \<open>fetch\<close>
  is still pending then, the callback is never invoked and the promise chain settles.
  When the body is being read, behind any number of chunks, no further read is
  answered, whatever the network goes on to send: the callback invocations are exactly
  those made for the chunks read before, with no \<open>error\<close> event for the cancellation,
  and a run that was waiting for the next read settles, so no exception is left that
  nobody handles. When the stream had already ended, the call changes nothing.
\<close>

theorem cancel_stops_reading_silently:
  "streamQuery_cancelled parse onEvent script Before_response =
      \<lparr>invocations = [], outcome = Settled\<rparr>
   \<and> invocations (streamQuery_cancelled parse onEvent
          (ok_response (map Chunk chunks @ later)) (After_reads (length chunks))) =
       invocations (streamQuery parse onEvent (ok_response (map Chunk chunks)))
   \<and> outcome (streamQuery_cancelled parse onEvent
          (ok_response (map Chunk chunks @ later)) (After_reads (length chunks))) =
       (case outcome (streamQuery parse onEvent (ok_response (map Chunk chunks))) of
          Pending \<Rightarrow> Settled | other \<Rightarrow> other)
   \<and> (never_throws onEvent \<longrightarrow>
        streamQuery_cancelled parse onEvent
          (ok_response (map Chunk chunks @ later)) (After_reads (length chunks)) =
        \<lparr>invocations = concat (map (message_events parse) (terminated_messages (concat chunks))),
         outcome = Settled\<rparr>)
   \<and> (length chunks < k \<longrightarrow>
        streamQuery_cancelled parse onEvent
          (ok_response (map Chunk chunks @ Done # later)) (After_reads k) =
        streamQuery parse onEvent (ok_response (map Chunk chunks @ Done # later)))"
proof -
  have name: "err_name abort_error = ascii ''AbortError''" by (simp add: abort_error_def)
  note swallowed = abort_rejection_swallowed[OF name]
  have a: "streamQuery_cancelled parse onEvent script Before_response =
      \<lparr>invocations = [], outcome = Settled\<rparr>"
    using swallowed(1)[of parse onEvent]
    by (simp add: streamQuery_cancelled_def platform_fetch_cancelled)
  have run: "streamQuery_cancelled parse onEvent
          (ok_response (map Chunk chunks @ later)) (After_reads (length chunks)) =
        streamQuery parse onEvent
          (ok_response (map Chunk chunks @ ReadRejected (Thrown_object abort_error) # []))"
    by (simp add: streamQuery_cancelled_def platform_fetch_cancelled ok_response_def)
  have b: "invocations (streamQuery_cancelled parse onEvent
          (ok_response (map Chunk chunks @ later)) (After_reads (length chunks))) =
       invocations (streamQuery parse onEvent (ok_response (map Chunk chunks)))"
    unfolding run by (rule swallowed(2))
  have c: "outcome (streamQuery_cancelled parse onEvent
          (ok_response (map Chunk chunks @ later)) (After_reads (length chunks))) =
       (case outcome (streamQuery parse onEvent (ok_response (map Chunk chunks))) of
          Pending \<Rightarrow> Settled | other \<Rightarrow> other)"
    unfolding run by (rule swallowed(3))
  have d: "streamQuery_cancelled parse onEvent
          (ok_response (map Chunk chunks @ later)) (After_reads (length chunks)) =
        \<lparr>invocations = concat (map (message_events parse) (terminated_messages (concat chunks))),
         outcome = Settled\<rparr>"
    if nt: "never_throws onEvent"
  proof -
    have "streamQuery parse onEvent (ok_response (map Chunk chunks)) =
      \<lparr>invocations = concat (map (message_events parse) (terminated_messages (concat chunks))),
       outcome = Pending\<rparr>"
      using nt by (rule streamQuery_pending)
    then show ?thesis
      using b c
      by (cases "streamQuery_cancelled parse onEvent
          (ok_response (map Chunk chunks @ later)) (After_reads (length chunks))") simp
  qed
  have e: "streamQuery_cancelled parse onEvent
          (ok_response (map Chunk chunks @ Done # later)) (After_reads k) =
        streamQuery parse onEvent (ok_response (map Chunk chunks @ Done # later))"
    if k: "length chunks < k"
  proof -
    have "take k (map Chunk chunks @ Done # later) =
        map Chunk chunks @ Done # take (k - Suc (length chunks)) later"
      using k by (simp add: take_Cons')
    then have "streamQuery_cancelled parse onEvent
          (ok_response (map Chunk chunks @ Done # later)) (After_reads k) =
        streamQuery parse onEvent (ok_response (map Chunk chunks
          @ Done # (take (k - Suc (length chunks)) later @ [ReadRejected (Thrown_object abort_error)])))"
      by (simp add: streamQuery_cancelled_def platform_fetch_cancelled ok_response_def)
    then show ?thesis using streamQuery_Done_rest by metis
  qed
  show ?thesis using a b c d e by blast
qed

text \<open>
  An instance: left alone, the stream delivers two messages; cancelled after the first
  read, which ends inside the second message, it delivers the first one only; cancelled
  before the response, none.
\<close>

theorem cancel_stops_reading_silently_witness:
  "streamQuery parse_literal returning
      (ok_response [Chunk (ascii ''data: true\<newline>\<newline>data: fa''),
                    Chunk (ascii ''lse\<newline>\<newline>''), Done]) =
     \<lparr>invocations = [\<lparr>event = ascii ''message'', data = Decoded JTrue\<rparr>,
                     \<lparr>event = ascii ''message'', data = Decoded JFalse\<rparr>],
      outcome = Settled\<rparr>
   \<and> never_throws (returning :: json_literal handler)
   \<and> streamQuery_cancelled parse_literal returning
      (ok_response [Chunk (ascii ''data: true\<newline>\<newline>data: fa''),
                    Chunk (ascii ''lse\<newline>\<newline>''), Done]) (After_reads 1) =
     \<lparr>invocations = [\<lparr>event = ascii ''message'', data = Decoded JTrue\<rparr>], outcome = Settled\<rparr>
   \<and> streamQuery_cancelled parse_literal returning
      (ok_response [Chunk (ascii ''data: true\<newline>\<newline>data: fa''),
                    Chunk (ascii ''lse\<newline>\<newline>''), Done]) Before_response =
     \<lparr>invocations = [], outcome = Settled\<rparr>"
proof -
  have full: "streamQuery parse_literal returning
      (ok_response [Chunk (ascii ''data: true\<newline>\<newline>data: fa''),
                    Chunk (ascii ''lse\<newline>\<newline>''), Done]) =
     \<lparr>invocations = [\<lparr>event = ascii ''message'', data = Decoded JTrue\<rparr>,
                     \<lparr>event = ascii ''message'', data = Decoded JFalse\<rparr>],
      outcome = Settled\<rparr>"
    by code_simp
  have nt: "never_throws (returning :: json_literal handler)" by (rule never_throws_returning)
  have ev: "concat (map (message_events parse_literal)
       (terminated_messages (concat [ascii ''data: true\<newline>\<newline>data: fa'']))) =
       [\<lparr>event = ascii ''message'', data = Decoded JTrue\<rparr>]"
    by code_simp
  show ?thesis
    using cancel_stops_reading_silently[where parse=parse_literal
        and onEvent="returning :: json_literal handler"
        and chunks="[ascii ''data: true\<newline>\<newline>data: fa'']"
        and later="[Chunk (ascii ''lse\<newline>\<newline>''), Done]"
        and script="ok_response [Chunk (ascii ''data: true\<newline>\<newline>data: fa''),
                    Chunk (ascii ''lse\<newline>\<newline>''), Done]" and k=2]
      full nt ev
    by simp
qed

section \<open>The bound on the log list\<close>

lemma js_slice_from_end:
  assumes "0 < k"
  shows "js_slice xs (- int k) = drop (length xs - k) xs"
proof -
  have neg: "- int k < 0" using assms by simp
  have "nat (max (int (length xs) + - int k) 0) = length xs - k" by arith
  then show ?thesis using neg by (simp only: js_slice_def Let_def if_True)
qed

text \<open>
  Claim C9. After every call of \<open>appendLog\<close> the list has at most 300 entries and ends
  with the new entry: it is the list of the last 300 entries of the old list followed
  by the new entry, in their order. Below the bound nothing is discarded; at the bound
  the result has exactly 300 entries.
\<close>

theorem appendLog_keeps_300_most_recent:
  "length (appendLog src msg fresh_id now prev) \<le> 300
   \<and> last (appendLog src msg fresh_id now prev) =
        \<lparr>entry_id = fresh_id, source = src, message = msg, timestamp = now\<rparr>
   \<and> appendLog src msg fresh_id now prev =
        drop (length prev + 1 - 300)
          (prev @ [\<lparr>entry_id = fresh_id, source = src, message = msg, timestamp = now\<rparr>])
   \<and> (length prev < 300 \<longrightarrow>
        appendLog src msg fresh_id now prev =
          prev @ [\<lparr>entry_id = fresh_id, source = src, message = msg, timestamp = now\<rparr>])
   \<and> (300 \<le> length prev \<longrightarrow> length (appendLog src msg fresh_id now prev) = 300)"
proof -
  let ?entry = "\<lparr>entry_id = fresh_id, source = src, message = msg, timestamp = now\<rparr>"
  have sl: "js_slice (prev @ [?entry]) (- 300) = drop (length prev + 1 - 300) (prev @ [?entry])"
    using js_slice_from_end[where k=300 and xs="prev @ [?entry]"] by simp
  have eq: "appendLog src msg fresh_id now prev = drop (length prev + 1 - 300) (prev @ [?entry])"
    by (simp add: appendLog_def Let_def sl)
  show ?thesis unfolding eq by auto
qed

text \<open>An instance at the bound, where the oldest entry goes, and one below it.\<close>

theorem appendLog_keeps_300_most_recent_witness:
  "(300::nat) \<le> length (replicate 300 sample_entry)
   \<and> length (appendLog Backend (ascii ''new'') (ascii ''1-b'') 1 (replicate 300 sample_entry)) = 300
   \<and> appendLog Backend (ascii ''new'') (ascii ''1-b'') 1 (replicate 300 sample_entry) =
       replicate 299 sample_entry
         @ [\<lparr>entry_id = ascii ''1-b'', source = Backend, message = ascii ''new'', timestamp = 1\<rparr>]
   \<and> length [sample_entry] < 300
   \<and> appendLog Backend (ascii ''new'') (ascii ''1-b'') 1 [sample_entry] =
       [sample_entry, \<lparr>entry_id = ascii ''1-b'', source = Backend, message = ascii ''new'', timestamp = 1\<rparr>]"
proof -
  have d: "drop (Suc 0) (replicate 300 sample_entry) = replicate 299 sample_entry" by simp
  show ?thesis
    using appendLog_keeps_300_most_recent[of Backend "ascii ''new''" "ascii ''1-b''" 1 "replicate 300 sample_entry"]
      appendLog_keeps_300_most_recent[of Backend "ascii ''new''" "ascii ''1-b''" 1 "[sample_entry]"]
      d
    by simp
qed

end
